theory Spec2Isabelle
  imports Main "HOL-Library.Word" "HOL-Library.Sublist"
begin

unbundle bit_operations_syntax

section \<open>Kernel module: policy format and frontier bitmaps\<close>

text \<open>
  Embedding of \<^verbatim>\<open>kernel-module/libcallsandbox.c\<close>.  Fixed-width C integers are
  words.  A kernel pointer to an allocated array is a list; \<open>NULL\<close> is \<open>None\<close>.
  Every function that touches memory returns an \<open>option\<close>: \<open>None\<close> stands for an
  access outside the allocated object (or through \<open>NULL\<close>), which is undefined
  behaviour in C and an oops in the kernel.
\<close>

type_synonym u8 = "8 word"
type_synonym u32 = "32 word"
type_synonym s32 = "32 word"
type_synonym ulong = "64 word"

record edge =
  src :: u32
  dst :: u32
  match_id :: s32
  is_epsilon :: u8

record policy_blob =
  pid :: u32
  num_nodes :: u32
  num_edges :: u32
  id_mode :: u32

record frontier =
  fr_num_nodes :: u32
  bitmap :: "ulong list option"

record proc_policy =
  pp_pid :: u32
  pp_num_nodes :: u32
  pp_num_edges :: u32
  pp_id_mode :: u32
  edges :: "edge list"
  fr :: frontier

text \<open>The hash table \<open>proc_tbl\<close>: at most one entry per pid is ever linked, because
  the only insertion (in \<open>sandbox_ioctl\<close>) unlinks the entry found by \<open>lookup_ppid\<close>
  first.\<close>

type_synonym proc_tbl = "u32 \<rightharpoonup> proc_policy"

definition BITS_PER_LONG :: nat where
  "BITS_PER_LONG = 64"

definition BITS_TO_LONGS :: "nat \<Rightarrow> nat" where
  "BITS_TO_LONGS nr = (nr + BITS_PER_LONG - 1) div BITS_PER_LONG"

text \<open>\<open>kcalloc(n, size, flags)\<close>: zeroed array of \<open>n\<close> elements, or \<open>NULL\<close>.  Whether the
  allocator succeeds is an input of the model.\<close>

definition kcalloc :: "bool \<Rightarrow> nat \<Rightarrow> ('a::zero) list option" where
  "kcalloc ok n = (if ok then Some (replicate n 0) else None)"

definition test_bit :: "nat \<Rightarrow> ulong list \<Rightarrow> bool option" where
  "test_bit nr addr =
     (if nr div BITS_PER_LONG < length addr
      then Some (bit (addr ! (nr div BITS_PER_LONG)) (nr mod BITS_PER_LONG))
      else None)"

definition set_bit_nonatomic :: "nat \<Rightarrow> ulong list \<Rightarrow> ulong list option" where
  "set_bit_nonatomic nr addr =
     (if nr div BITS_PER_LONG < length addr
      then Some (addr[nr div BITS_PER_LONG :=
                   addr ! (nr div BITS_PER_LONG) OR push_bit (nr mod BITS_PER_LONG) 1])
      else None)"

definition frontier_init :: "bool \<Rightarrow> u32 \<Rightarrow> frontier" where
  "frontier_init ok n =
     \<lparr>fr_num_nodes = n, bitmap = kcalloc ok (BITS_TO_LONGS (unat n))\<rparr>"

definition frontier_set :: "frontier \<Rightarrow> u32 \<Rightarrow> frontier option" where
  "frontier_set f idx =
     (case bitmap f of None \<Rightarrow> None
      | Some bm \<Rightarrow>
          (case set_bit_nonatomic (unat idx) bm of None \<Rightarrow> None
           | Some bm' \<Rightarrow> Some (f\<lparr>bitmap := Some bm'\<rparr>)))"

definition frontier_test :: "frontier \<Rightarrow> u32 \<Rightarrow> bool option" where
  "frontier_test f idx =
     (case bitmap f of None \<Rightarrow> None | Some bm \<Rightarrow> test_bit (unat idx) bm)"

text \<open>One execution of the \<open>for\<close> loop inside \<open>epsilon_closure\<close>; the flag is the
  local \<open>changed\<close>.  The \<open>&&\<close> of the source reads the \<open>dst\<close> bit only when the
  \<open>src\<close> bit is set.\<close>

fun closure_pass :: "edge list \<Rightarrow> frontier \<Rightarrow> bool \<Rightarrow> (frontier \<times> bool) option" where
  "closure_pass [] f changed = Some (f, changed)"
| "closure_pass (e # es) f changed =
     (if is_epsilon e = 0 then closure_pass es f changed
      else
        (case frontier_test f (src e) of
           None \<Rightarrow> None
         | Some False \<Rightarrow> closure_pass es f changed
         | Some True \<Rightarrow>
             (case frontier_test f (dst e) of
                None \<Rightarrow> None
              | Some True \<Rightarrow> closure_pass es f changed
              | Some False \<Rightarrow>
                  (case frontier_set f (dst e) of
                     None \<Rightarrow> None
                   | Some f' \<Rightarrow> closure_pass es f' True))))"

text \<open>The set of bit positions that are set in a bitmap, and the number of positions
  that are still clear (the quantity that decreases in every repetition of the
  \<open>do \<dots> while (changed)\<close> loop).\<close>

definition bits_of :: "ulong list \<Rightarrow> nat set" where
  "bits_of bm = {i. i div BITS_PER_LONG < length bm \<and>
                    bit (bm ! (i div BITS_PER_LONG)) (i mod BITS_PER_LONG)}"

definition active :: "frontier \<Rightarrow> nat set" where
  "active f = (case bitmap f of None \<Rightarrow> {} | Some bm \<Rightarrow> bits_of bm)"

definition capacity :: "frontier \<Rightarrow> nat" where
  "capacity f = (case bitmap f of None \<Rightarrow> 0 | Some bm \<Rightarrow> BITS_PER_LONG * length bm)"

definition clear_bits :: "frontier \<Rightarrow> nat" where
  "clear_bits f = capacity f - card (active f)"

subsection \<open>Facts about bitmaps needed for the termination of the closure loop\<close>

lemma mod_div_eqI: "i div 64 = j div 64 \<Longrightarrow> i mod 64 = j mod 64 \<Longrightarrow> i = (j::nat)"
  by (metis div_mult_mod_eq)

lemma bits_of_set_bit:
  assumes "set_bit_nonatomic i bm = Some bm'"
  shows "bits_of bm' = insert i (bits_of bm)" and "length bm' = length bm"
proof -
  from assms have lt: "i div 64 < length bm"
    and bm': "bm' = bm[i div 64 := bm ! (i div 64) OR push_bit (i mod 64) 1]"
    by (auto simp: set_bit_nonatomic_def BITS_PER_LONG_def split: if_splits)
  show "length bm' = length bm" by (simp add: bm')
  show "bits_of bm' = insert i (bits_of bm)"
  proof (rule set_eqI)
    fix j
    show "j \<in> bits_of bm' \<longleftrightarrow> j \<in> insert i (bits_of bm)"
    proof (cases "j div 64 = i div 64")
      case True
      then show ?thesis using lt
        by (auto simp: bits_of_def BITS_PER_LONG_def bm' bit_or_iff bit_exp_iff
            intro: mod_div_eqI)
    next
      case False
      then show ?thesis
        by (auto simp: bits_of_def BITS_PER_LONG_def bm')
    qed
  qed
qed

lemma bits_of_bounded: "bits_of bm \<subseteq> {..< BITS_PER_LONG * length bm}"
  by (auto simp: bits_of_def BITS_PER_LONG_def)

lemma finite_bits_of: "finite (bits_of bm)"
  using bits_of_bounded finite_subset by blast

lemma card_bits_of_le: "card (bits_of bm) \<le> BITS_PER_LONG * length bm"
  using subset_eq_atLeast0_lessThan_card bits_of_bounded
  by (metis atLeast0LessThan) 

lemma frontier_set_active:
  assumes "frontier_set f idx = Some f'"
  shows "active f' = insert (unat idx) (active f)" and "capacity f' = capacity f"
    and "fr_num_nodes f' = fr_num_nodes f" and "unat idx < capacity f"
proof -
  from assms obtain bm bm' where bm: "bitmap f = Some bm"
    and sb: "set_bit_nonatomic (unat idx) bm = Some bm'"
    and f': "f' = f\<lparr>bitmap := Some bm'\<rparr>"
    by (auto simp: frontier_set_def split: option.splits)
  show "active f' = insert (unat idx) (active f)"
    by (simp add: active_def bm f' bits_of_set_bit(1)[OF sb])
  show "capacity f' = capacity f"
    by (simp add: capacity_def bm f' bits_of_set_bit(2)[OF sb])
  show "fr_num_nodes f' = fr_num_nodes f" by (simp add: f')
  from sb have "unat idx div 64 < length bm"
    by (simp add: set_bit_nonatomic_def BITS_PER_LONG_def split: if_splits)
  then show "unat idx < capacity f"
    by (simp add: capacity_def bm BITS_PER_LONG_def)
qed

lemma frontier_test_active:
  "frontier_test f idx = Some b \<Longrightarrow> b \<longleftrightarrow> unat idx \<in> active f"
  by (auto simp: frontier_test_def active_def test_bit_def bits_of_def split: option.splits if_splits)

lemma frontier_test_Some_iff:
  "(\<exists>b. frontier_test f idx = Some b) \<longleftrightarrow> unat idx < capacity f"
  by (auto simp: frontier_test_def capacity_def test_bit_def BITS_PER_LONG_def split: option.splits)

lemma frontier_set_Some_iff:
  "(\<exists>f'. frontier_set f idx = Some f') \<longleftrightarrow> unat idx < capacity f"
  by (auto simp: frontier_set_def capacity_def set_bit_nonatomic_def BITS_PER_LONG_def split: option.splits)

lemma active_bounded: "active f \<subseteq> {..< capacity f}"
  using bits_of_bounded by (auto simp: active_def capacity_def split: option.splits)

lemma finite_active: "finite (active f)"
  using active_bounded finite_subset by blast

lemma card_active_le: "card (active f) \<le> capacity f"
  using active_bounded subset_eq_atLeast0_lessThan_card by (metis atLeast0LessThan)

lemma closure_pass_inv:
  "closure_pass es f ch = Some (f', ch') \<Longrightarrow>
     capacity f' = capacity f \<and> fr_num_nodes f' = fr_num_nodes f \<and> active f \<subseteq> active f' \<and>
     (ch \<longrightarrow> ch') \<and> (\<not> ch' \<longrightarrow> f' = f) \<and> (ch' \<and> \<not> ch \<longrightarrow> active f \<subset> active f')"
proof (induction es arbitrary: f ch)
  case Nil
  then show ?case by auto
next
  case (Cons e es)
  show ?case
  proof (cases "is_epsilon e \<noteq> 0 \<and> frontier_test f (src e) = Some True \<and> frontier_test f (dst e) = Some False")
    case True
    then obtain f1 where f1: "frontier_set f (dst e) = Some f1" and rest: "closure_pass es f1 True = Some (f', ch')"
      using Cons.prems by (auto split: option.splits)
    from True have "unat (dst e) \<notin> active f" using frontier_test_active by blast
    with frontier_set_active[OF f1] Cons.IH[OF rest] show ?thesis by auto
  next
    case False
    then have "closure_pass es f ch = Some (f', ch')"
      using Cons.prems by (auto split: option.splits bool.splits if_splits)
    from Cons.IH[OF this] show ?thesis .
  qed
qed

lemma closure_pass_decreases:
  assumes "closure_pass es f False = Some (f', True)"
  shows "clear_bits f' < clear_bits f"
proof -
  from closure_pass_inv[OF assms] have c: "capacity f' = capacity f" and s: "active f \<subset> active f'"
    by auto
  from s have "card (active f) < card (active f')"
    by (simp add: finite_active psubset_card_mono)
  with card_active_le[of f'] c show ?thesis by (simp add: clear_bits_def)
qed


text \<open>\<open>epsilon_closure\<close>: the \<open>do \<dots> while (changed)\<close> loop.  The edge array of an
  installed policy holds exactly \<open>num_edges\<close> entries (see \<open>sandbox_ioctl\<close>); the
  loop visits the first \<open>num_edges\<close> of them.\<close>

definition edge_array :: "proc_policy \<Rightarrow> edge list" where
  "edge_array pp = take (unat (pp_num_edges pp)) (edges pp)"

function epsilon_closure :: "proc_policy \<Rightarrow> proc_policy option" where
  "epsilon_closure pp =
     (case closure_pass (edge_array pp) (fr pp) False of
        None \<Rightarrow> None
      | Some (f', changed) \<Rightarrow>
          if changed then epsilon_closure (pp\<lparr>fr := f'\<rparr>) else Some (pp\<lparr>fr := f'\<rparr>))"
  by pat_completeness auto
termination
  by (relation "measure (\<lambda>pp. clear_bits (fr pp))") (auto simp: closure_pass_decreases)

declare epsilon_closure.simps [simp del]

text \<open>The first loop of \<open>advance_frontier\<close>, writing into the scratch bitmap \<open>next\<close>.\<close>

fun move_loop :: "edge list \<Rightarrow> frontier \<Rightarrow> s32 \<Rightarrow> ulong list \<Rightarrow> ulong list option" where
  "move_loop [] f observed nxt = Some nxt"
| "move_loop (e # es) f observed nxt =
     (if is_epsilon e \<noteq> 0 then move_loop es f observed nxt
      else if match_id e \<noteq> observed then move_loop es f observed nxt
      else
        (case frontier_test f (src e) of
           None \<Rightarrow> None
         | Some False \<Rightarrow> move_loop es f observed nxt
         | Some True \<Rightarrow>
             (case set_bit_nonatomic (unat (dst e)) nxt of
                None \<Rightarrow> None
              | Some nxt' \<Rightarrow> move_loop es f observed nxt')))"

text \<open>\<open>memcpy(pp->fr.bitmap, next, BITS_TO_LONGS(pp->fr.num_nodes) * sizeof(unsigned long))\<close>.\<close>

definition memcpy_bitmap :: "frontier \<Rightarrow> ulong list \<Rightarrow> frontier option" where
  "memcpy_bitmap f nxt =
     (let n = BITS_TO_LONGS (unat (fr_num_nodes f)) in
      case bitmap f of
        None \<Rightarrow> if n = 0 then Some f else None
      | Some bm \<Rightarrow>
          if n \<le> length bm \<and> n \<le> length nxt
          then Some (f\<lparr>bitmap := Some (take n nxt @ drop n bm)\<rparr>)
          else None)"

text \<open>\<open>advance_frontier\<close>.  The first argument says whether the \<open>GFP_ATOMIC\<close>
  allocation of \<open>next\<close> succeeds; when it does not, the function returns at once and
  the policy is left as it was.\<close>

definition advance_frontier :: "bool \<Rightarrow> proc_policy \<Rightarrow> s32 \<Rightarrow> proc_policy option" where
  "advance_frontier alloc_ok pp observed =
     (case (kcalloc alloc_ok (BITS_TO_LONGS (unat (fr_num_nodes (fr pp)))) :: ulong list option) of
        None \<Rightarrow> Some pp
      | Some next0 \<Rightarrow>
          (case move_loop (edge_array pp) (fr pp) observed next0 of
             None \<Rightarrow> None
           | Some nxt \<Rightarrow>
               (case memcpy_bitmap (fr pp) nxt of
                  None \<Rightarrow> None
                | Some f' \<Rightarrow> epsilon_closure (pp\<lparr>fr := f'\<rparr>))))"

text \<open>\<open>frontier_empty\<close>: scans the first \<open>BITS_TO_LONGS(num_nodes)\<close> words and stops at
  the first one that is not zero.\<close>

fun words_zero :: "nat \<Rightarrow> ulong list \<Rightarrow> bool option" where
  "words_zero 0 ws = Some True"
| "words_zero (Suc n) [] = None"
| "words_zero (Suc n) (w # ws) = (if w \<noteq> 0 then Some False else words_zero n ws)"

definition frontier_empty :: "frontier \<Rightarrow> bool option" where
  "frontier_empty f =
     (case bitmap f of
        None \<Rightarrow> words_zero (BITS_TO_LONGS (unat (fr_num_nodes f))) []
      | Some bm \<Rightarrow> words_zero (BITS_TO_LONGS (unat (fr_num_nodes f))) bm)"

definition lookup_ppid :: "proc_tbl \<Rightarrow> u32 \<Rightarrow> proc_policy option" where
  "lookup_ppid tbl p = tbl p"

section \<open>Kernel module: the ioctl that installs a policy, and the probe handler\<close>

datatype errno = EFAULT | EINVAL | ENOMEM | ENOTTY

text \<open>The argument of the ioctl is a user-space address.  \<open>u_hdr\<close> is the header found
  there (\<open>None\<close> when the address cannot be read) and \<open>u_edges\<close> the edge records that can
  be read behind it.\<close>

record user_arg =
  u_hdr :: "policy_blob option"
  u_edges :: "edge list"

text \<open>What the allocator answers to the four allocations of one ioctl call, in the
  order of the source: the edge array, the \<open>proc_policy\<close>, the frontier bitmap and the
  in-degree array.\<close>

record alloc_outcomes =
  edges_alloc :: bool
  pp_alloc :: bool
  bitmap_alloc :: bool
  indeg_alloc :: bool

text \<open>\<open>_IOW('L', 0x01, struct policy_blob*)\<close> on x86-64: direction 1 in bits 30..31,
  size 8 in bits 16..29, type \<open>0x4C\<close> in bits 8..15, number 1.\<close>

definition IOCTL_LOAD_POLICY :: u32 where
  "IOCTL_LOAD_POLICY = 0x40084C01"

text \<open>\<open>indeg[edges[i].dst]++\<close> for the edges that are not \<epsilon>-edges.\<close>

fun count_indeg :: "edge list \<Rightarrow> u32 list \<Rightarrow> u32 list option" where
  "count_indeg [] indeg = Some indeg"
| "count_indeg (e # es) indeg =
     (if is_epsilon e = 0
      then (if unat (dst e) < length indeg
            then count_indeg es (indeg[unat (dst e) := indeg ! unat (dst e) + 1])
            else None)
      else count_indeg es indeg)"

text \<open>\<open>for (u32 n = 0; n < hdr.num_nodes; ++n) if (indeg[n] == 0) frontier_set(&pp->fr, n);\<close>
  over the list of the values \<open>n\<close> takes.\<close>

fun start_loop :: "nat list \<Rightarrow> u32 list \<Rightarrow> frontier \<Rightarrow> frontier option" where
  "start_loop [] indeg f = Some f"
| "start_loop (n # ns) indeg f =
     (if n < length indeg
      then (if indeg ! n = 0
            then (case frontier_set f (of_nat n) of
                    None \<Rightarrow> None
                  | Some f' \<Rightarrow> start_loop ns indeg f')
            else start_loop ns indeg f)
      else None)"

definition init_start_set :: "bool \<Rightarrow> policy_blob \<Rightarrow> edge list \<Rightarrow> frontier \<Rightarrow> frontier option" where
  "init_start_set indeg_ok hdr es f =
     (case (kcalloc indeg_ok (unat (num_nodes hdr)) :: u32 list option) of
        Some indeg0 \<Rightarrow>
          (case count_indeg es indeg0 of
             None \<Rightarrow> None
           | Some indeg \<Rightarrow> start_loop [0 ..< unat (num_nodes hdr)] indeg f)
      | None \<Rightarrow> frontier_set f 0)"

text \<open>\<open>sandbox_ioctl\<close>.  The result is the return value (\<open>Inr ()\<close> for 0, \<open>Inl e\<close> for
  \<open>-e\<close>) and the table afterwards.\<close>

definition sandbox_ioctl ::
  "alloc_outcomes \<Rightarrow> u32 \<Rightarrow> user_arg \<Rightarrow> proc_tbl \<Rightarrow> ((errno + unit) \<times> proc_tbl) option" where
  "sandbox_ioctl env cmd arg tbl =
     (if cmd = IOCTL_LOAD_POLICY then
        (case u_hdr arg of
           None \<Rightarrow> Some (Inl EFAULT, tbl)
         | Some hdr \<Rightarrow>
             if num_nodes hdr = 0 \<or> num_edges hdr > push_bit 20 1 then Some (Inl EINVAL, tbl)
             else if \<not> edges_alloc env then Some (Inl ENOMEM, tbl)
             else if length (u_edges arg) < unat (num_edges hdr) then Some (Inl EFAULT, tbl)
             else
               let es = take (unat (num_edges hdr)) (u_edges arg);
                   tbl1 = (case lookup_ppid tbl (pid hdr) of
                             Some old \<Rightarrow> tbl(pid hdr := None)
                           | None \<Rightarrow> tbl)
               in if \<not> pp_alloc env then Some (Inl ENOMEM, tbl1)
                  else
                    let pp = \<lparr>pp_pid = pid hdr, pp_num_nodes = num_nodes hdr,
                              pp_num_edges = num_edges hdr, pp_id_mode = id_mode hdr,
                              edges = es,
                              fr = frontier_init (bitmap_alloc env) (num_nodes hdr)\<rparr>
                    in (case init_start_set (indeg_alloc env) hdr es (fr pp) of
                          None \<Rightarrow> None
                        | Some f \<Rightarrow>
                            (case epsilon_closure (pp\<lparr>fr := f\<rparr>) of
                               None \<Rightarrow> None
                             | Some pp' \<Rightarrow> Some (Inr (), tbl1(pp_pid pp' \<mapsto> pp')))))
      else Some (Inl ENOTTY, tbl))"

text \<open>\<open>handler_pre\<close>, the kprobe handler on the \<open>dummy\<close> system call.  \<open>di\<close> is the
  first-argument register, \<open>cur\<close> the pid of the current task.  The result is the table
  afterwards and whether \<open>SIGKILL\<close> was sent.\<close>

definition handler_pre :: "bool \<Rightarrow> 64 word \<Rightarrow> u32 \<Rightarrow> proc_tbl \<Rightarrow> (proc_tbl \<times> bool) option" where
  "handler_pre alloc_ok di cur tbl =
     (let ident = (ucast di :: s32) in
      case lookup_ppid tbl cur of
        None \<Rightarrow> Some (tbl, False)
      | Some pp \<Rightarrow>
          (case advance_frontier alloc_ok pp ident of
             None \<Rightarrow> None
           | Some pp' \<Rightarrow>
               (case frontier_empty (fr pp') of
                  None \<Rightarrow> None
                | Some b \<Rightarrow> Some (tbl(cur \<mapsto> pp'), b))))"

section \<open>The \<epsilon>-closure computed by the kernel loop\<close>


definition eps_rel :: "edge list \<Rightarrow> (nat \<times> nat) set" where
  "eps_rel es = set (map (\<lambda>e. (unat (src e), unat (dst e))) (filter (\<lambda>e. is_epsilon e \<noteq> 0) es))"

lemma eps_rel_iff:
  "(u, v) \<in> eps_rel es \<longleftrightarrow>
     (\<exists>e\<in>set es. is_epsilon e \<noteq> 0 \<and> u = unat (src e) \<and> v = unat (dst e))"
  unfolding eps_rel_def by (simp add: image_iff) blast

definition eps_in_range :: "edge list \<Rightarrow> nat \<Rightarrow> bool" where
  "eps_in_range es n = (\<forall>e\<in>set es. is_epsilon e \<noteq> 0 \<longrightarrow> unat (src e) < n \<and> unat (dst e) < n)"

lemma frontier_test_total: "unat idx < capacity f \<Longrightarrow> \<exists>b. frontier_test f idx = Some b"
  using frontier_test_Some_iff by blast

lemma frontier_set_total: "unat idx < capacity f \<Longrightarrow> \<exists>f'. frontier_set f idx = Some f'"
  using frontier_set_Some_iff by blast

lemma closure_pass_total:
  "eps_in_range es (capacity f) \<Longrightarrow> \<exists>r. closure_pass es f ch = Some r"
proof (induction es arbitrary: f ch)
  case Nil
  then show ?case by simp
next
  case (Cons e es)
  from Cons.prems have rest: "eps_in_range es (capacity f)"
    by (simp add: eps_in_range_def)
  show ?case
  proof (cases "is_epsilon e = 0")
    case True
    then show ?thesis using Cons.IH[OF rest] by simp
  next
    case False
    with Cons.prems have s: "unat (src e) < capacity f" and d: "unat (dst e) < capacity f"
      by (auto simp: eps_in_range_def)
    from frontier_test_total[OF s] obtain bs where bs: "frontier_test f (src e) = Some bs" ..
    from frontier_test_total[OF d] obtain bd where bd: "frontier_test f (dst e) = Some bd" ..
    from frontier_set_total[OF d] obtain f1 where f1: "frontier_set f (dst e) = Some f1" ..
    from frontier_set_active(2)[OF f1] rest have rest1: "eps_in_range es (capacity f1)" by simp
    show ?thesis
      using False bs bd f1 Cons.IH[OF rest, of ch] Cons.IH[OF rest1, of True]
      by (cases bs; cases bd; simp)
  qed
qed

lemma epsilon_closure_total:
  "eps_in_range (edge_array pp) (capacity (fr pp)) \<Longrightarrow> \<exists>pp'. epsilon_closure pp = Some pp'"
proof (induction pp rule: epsilon_closure.induct)
  case (1 pp)
  from closure_pass_total[OF "1.prems"] obtain f' ch
    where cp: "closure_pass (edge_array pp) (fr pp) False = Some (f', ch)" by fastforce
  show ?case
  proof (cases ch)
    case True
    have "eps_in_range (edge_array (pp\<lparr>fr := f'\<rparr>)) (capacity (fr (pp\<lparr>fr := f'\<rparr>)))"
      using "1.prems" closure_pass_inv[OF cp] by (simp add: edge_array_def)
    from "1.IH"[OF cp refl True this] show ?thesis
      using cp True by (subst epsilon_closure.simps) simp
  next
    case False
    then show ?thesis using cp by (subst epsilon_closure.simps) simp
  qed
qed

lemma epsilon_closure_inv:
  "epsilon_closure pp = Some pp' \<Longrightarrow>
     active (fr pp) \<subseteq> active (fr pp') \<and> (\<exists>g. pp' = pp\<lparr>fr := g\<rparr>) \<and>
     capacity (fr pp') = capacity (fr pp) \<and> fr_num_nodes (fr pp') = fr_num_nodes (fr pp) \<and>
     closure_pass (edge_array pp') (fr pp') False = Some (fr pp', False)"
proof (induction pp rule: epsilon_closure.induct)
  case (1 pp)
  from "1.prems" obtain f' ch
    where cp: "closure_pass (edge_array pp) (fr pp) False = Some (f', ch)"
    by (subst (asm) epsilon_closure.simps) (auto split: option.splits)
  note inv = closure_pass_inv[OF cp]
  show ?case
  proof (cases ch)
    case True
    with cp "1.prems" have rec: "epsilon_closure (pp\<lparr>fr := f'\<rparr>) = Some pp'"
      by (subst (asm) epsilon_closure.simps) simp
    note ih = "1.IH"[OF cp refl True rec]
    from ih obtain g where "pp' = pp\<lparr>fr := f', fr := g\<rparr>" by blast
    then have "pp' = pp\<lparr>fr := g\<rparr>" by simp
    then have ex: "\<exists>g. pp' = pp\<lparr>fr := g\<rparr>" by (rule exI)
    from ih inv have "active (fr pp) \<subseteq> active (fr pp')"
      and "capacity (fr pp') = capacity (fr pp)"
      and "fr_num_nodes (fr pp') = fr_num_nodes (fr pp)"
      and "closure_pass (edge_array pp') (fr pp') False = Some (fr pp', False)"
      by auto
    with ex show ?thesis by blast
  next
    case False
    with cp "1.prems" have pp': "pp' = pp\<lparr>fr := f'\<rparr>"
      by (subst (asm) epsilon_closure.simps) simp
    from inv False have f': "f' = fr pp" by simp
    from pp' have ex: "\<exists>g. pp' = pp\<lparr>fr := g\<rparr>" by (rule exI)
    from pp' f' cp False
    have "closure_pass (edge_array pp') (fr pp') False = Some (fr pp', False)"
      by (simp add: edge_array_def)
    moreover from pp' f' have "fr pp' = fr pp" by simp
    ultimately show ?thesis using ex by simp
  qed
qed

lemma epsilon_closure_edge_array:
  assumes "epsilon_closure pp = Some pp'"
  shows "edge_array pp' = edge_array pp"
proof -
  from epsilon_closure_inv[OF assms] obtain g where "pp' = pp\<lparr>fr := g\<rparr>" by blast
  then show ?thesis by (simp add: edge_array_def)
qed

lemma epsilon_closure_fixed:
  assumes "epsilon_closure pp = Some pp'"
  shows "epsilon_closure pp' = Some pp'"
proof -
  from epsilon_closure_inv[OF assms]
  have "closure_pass (edge_array pp') (fr pp') False = Some (fr pp', False)" by simp
  then show ?thesis by (subst epsilon_closure.simps) simp
qed

definition move_set :: "edge list \<Rightarrow> nat set \<Rightarrow> s32 \<Rightarrow> nat set" where
  "move_set es F v =
     set (map (\<lambda>e. unat (dst e))
            (filter (\<lambda>e. is_epsilon e = 0 \<and> match_id e = v \<and> unat (src e) \<in> F) es))"

definition frontier_ok :: "frontier \<Rightarrow> bool" where
  "frontier_ok f =
     (case bitmap f of None \<Rightarrow> False
      | Some bm \<Rightarrow> length bm = BITS_TO_LONGS (unat (fr_num_nodes f)))"

definition edges_in_range :: "edge list \<Rightarrow> u32 \<Rightarrow> bool" where
  "edges_in_range es n = (\<forall>e\<in>set es. src e < n \<and> dst e < n)"

definition policy_ok :: "proc_policy \<Rightarrow> bool" where
  "policy_ok pp \<longleftrightarrow>
     frontier_ok (fr pp) \<and> edges_in_range (edge_array pp) (fr_num_nodes (fr pp))"

lemma closure_pass_sound:
  "closure_pass es f ch = Some (f', ch') \<Longrightarrow> set es \<subseteq> set all \<Longrightarrow>
     active f \<subseteq> (eps_rel all)\<^sup>* `` F \<Longrightarrow> active f' \<subseteq> (eps_rel all)\<^sup>* `` F"
proof (induction es arbitrary: f ch)
  case Nil
  then show ?case by simp
next
  case (Cons e es)
  show ?case
  proof (cases "is_epsilon e \<noteq> 0 \<and> frontier_test f (src e) = Some True \<and> frontier_test f (dst e) = Some False")
    case True
    then obtain f1 where f1: "frontier_set f (dst e) = Some f1" and rest: "closure_pass es f1 True = Some (f', ch')"
      using Cons.prems by (auto split: option.splits)
    from True have sa: "unat (src e) \<in> active f" using frontier_test_active by blast
    from Cons.prems(2) have "e \<in> set all" by simp
    with True have step: "(unat (src e), unat (dst e)) \<in> eps_rel all"
      unfolding eps_rel_iff by blast
    from sa Cons.prems(3) obtain u where "u \<in> F" "(u, unat (src e)) \<in> (eps_rel all)\<^sup>*"
      by blast
    with step have "unat (dst e) \<in> (eps_rel all)\<^sup>* `` F"
      by (blast intro: rtrancl_into_rtrancl)
    with frontier_set_active(1)[OF f1] Cons.prems(3)
    have "active f1 \<subseteq> (eps_rel all)\<^sup>* `` F" by simp
    from Cons.IH[OF rest _ this] Cons.prems(2) show ?thesis by simp
  next
    case False
    then have "closure_pass es f ch = Some (f', ch')"
      using Cons.prems by (auto split: option.splits bool.splits if_splits)
    from Cons.IH[OF this _ Cons.prems(3)] Cons.prems(2) show ?thesis by simp
  qed
qed

lemma closure_pass_closed:
  "closure_pass es f ch = Some (f', False) \<Longrightarrow>
     \<forall>e\<in>set es. is_epsilon e \<noteq> 0 \<and> unat (src e) \<in> active f \<longrightarrow> unat (dst e) \<in> active f"
proof (induction es arbitrary: f ch)
  case Nil
  then show ?case by simp
next
  case (Cons e es)
  show ?case
  proof (cases "is_epsilon e \<noteq> 0 \<and> frontier_test f (src e) = Some True \<and> frontier_test f (dst e) = Some False")
    case True
    then obtain f1 where "closure_pass es f1 True = Some (f', False)"
      using Cons.prems by (auto split: option.splits)
    from closure_pass_inv[OF this] show ?thesis by simp
  next
    case False
    then have rest: "closure_pass es f ch = Some (f', False)"
      using Cons.prems by (auto split: option.splits bool.splits if_splits)
    have "is_epsilon e \<noteq> 0 \<and> unat (src e) \<in> active f \<longrightarrow> unat (dst e) \<in> active f"
      using False Cons.prems frontier_test_active[of f "src e"] frontier_test_active[of f "dst e"]
      by (auto split: option.splits bool.splits if_splits)
    with Cons.IH[OF rest] show ?thesis by simp
  qed
qed

lemma epsilon_closure_sound:
  "epsilon_closure pp = Some pp' \<Longrightarrow> active (fr pp) \<subseteq> (eps_rel (edge_array pp))\<^sup>* `` F \<Longrightarrow>
     active (fr pp') \<subseteq> (eps_rel (edge_array pp))\<^sup>* `` F"
proof (induction pp rule: epsilon_closure.induct)
  case (1 pp)
  from "1.prems"(1) obtain f' ch
    where cp: "closure_pass (edge_array pp) (fr pp) False = Some (f', ch)"
    by (subst (asm) epsilon_closure.simps) (auto split: option.splits)
  from closure_pass_sound[OF cp subset_refl "1.prems"(2)]
  have f': "active f' \<subseteq> (eps_rel (edge_array pp))\<^sup>* `` F" .
  show ?case
  proof (cases ch)
    case True
    with cp "1.prems"(1) have rec: "epsilon_closure (pp\<lparr>fr := f'\<rparr>) = Some pp'"
      by (subst (asm) epsilon_closure.simps) simp
    from "1.IH"[OF cp refl True rec] f' show ?thesis by (simp add: edge_array_def)
  next
    case False
    with cp "1.prems"(1) have "pp' = pp\<lparr>fr := f'\<rparr>"
      by (subst (asm) epsilon_closure.simps) simp
    with f' show ?thesis by simp
  qed
qed

lemma epsilon_closure_reach:
  assumes "epsilon_closure pp = Some pp'"
  shows "active (fr pp') = (eps_rel (edge_array pp))\<^sup>* `` active (fr pp)"
proof
  show "active (fr pp') \<subseteq> (eps_rel (edge_array pp))\<^sup>* `` active (fr pp)"
    by (rule epsilon_closure_sound[OF assms]) auto
next
  note inv = epsilon_closure_inv[OF assms]
  note ea = epsilon_closure_edge_array[OF assms]
  from inv have "closure_pass (edge_array pp) (fr pp') False = Some (fr pp', False)"
    using ea by simp
  from closure_pass_closed[OF this]
  have closed: "\<And>u v. (u, v) \<in> eps_rel (edge_array pp) \<Longrightarrow> u \<in> active (fr pp') \<Longrightarrow> v \<in> active (fr pp')"
    unfolding eps_rel_iff by blast
  show "(eps_rel (edge_array pp))\<^sup>* `` active (fr pp) \<subseteq> active (fr pp')"
  proof
    fix v assume "v \<in> (eps_rel (edge_array pp))\<^sup>* `` active (fr pp)"
    then obtain u where u: "u \<in> active (fr pp)" and r: "(u, v) \<in> (eps_rel (edge_array pp))\<^sup>*" by auto
    from r show "v \<in> active (fr pp')"
    proof (induction rule: rtrancl_induct)
      case base
      then show ?case using u inv by auto
    next
      case (step y z)
      then show ?case using closed by blast
    qed
  qed
qed

section \<open>The step \<open>advance_frontier\<close> and the emptiness test\<close>


lemma bits_of_replicate [simp]: "bits_of (replicate n 0) = {}"
  by (auto simp: bits_of_def)

lemma move_loop_length:
  "move_loop es f v nxt = Some nxt' \<Longrightarrow> length nxt' = length nxt"
proof (induction es arbitrary: nxt)
  case Nil
  then show ?case by simp
next
  case (Cons e es)
  show ?case
  proof (cases "is_epsilon e = 0 \<and> match_id e = v \<and> frontier_test f (src e) = Some True")
    case True
    then obtain n1 where n1: "set_bit_nonatomic (unat (dst e)) nxt = Some n1"
      and rest: "move_loop es f v n1 = Some nxt'"
      using Cons.prems by (auto split: option.splits)
    from Cons.IH[OF rest] bits_of_set_bit(2)[OF n1] show ?thesis by simp
  next
    case False
    then have "move_loop es f v nxt = Some nxt'"
      using Cons.prems by (auto split: option.splits bool.splits if_splits)
    from Cons.IH[OF this] show ?thesis .
  qed
qed

lemma move_loop_bits:
  "move_loop es f v nxt = Some nxt' \<Longrightarrow> bits_of nxt' = bits_of nxt \<union> move_set es (active f) v"
proof (induction es arbitrary: nxt)
  case Nil
  then show ?case by (simp add: move_set_def)
next
  case (Cons e es)
  have split: "move_set (e # es) (active f) v =
      (if is_epsilon e = 0 \<and> match_id e = v \<and> unat (src e) \<in> active f then {unat (dst e)} else {})
       \<union> move_set es (active f) v"
    by (simp add: move_set_def)
  show ?case
  proof (cases "is_epsilon e = 0 \<and> match_id e = v \<and> frontier_test f (src e) = Some True")
    case True
    then obtain n1 where n1: "set_bit_nonatomic (unat (dst e)) nxt = Some n1"
      and rest: "move_loop es f v n1 = Some nxt'"
      using Cons.prems by (auto split: option.splits)
    from True have "unat (src e) \<in> active f" using frontier_test_active by blast
    with True Cons.IH[OF rest] bits_of_set_bit(1)[OF n1] split show ?thesis by auto
  next
    case False
    then have rest: "move_loop es f v nxt = Some nxt'"
      using Cons.prems by (auto split: option.splits bool.splits if_splits)
    have "\<not> (is_epsilon e = 0 \<and> match_id e = v \<and> unat (src e) \<in> active f)"
      using False Cons.prems frontier_test_active[of f "src e"]
      by (auto split: option.splits bool.splits if_splits)
    with Cons.IH[OF rest] split show ?thesis by auto
  qed
qed

lemma set_bit_total: "i < BITS_PER_LONG * length bm \<Longrightarrow> \<exists>bm'. set_bit_nonatomic i bm = Some bm'"
  by (simp add: set_bit_nonatomic_def BITS_PER_LONG_def less_mult_imp_div_less mult.commute)

lemma move_loop_total:
  "\<forall>e\<in>set es. unat (src e) < capacity f \<and> unat (dst e) < BITS_PER_LONG * length nxt \<Longrightarrow>
     \<exists>nxt'. move_loop es f v nxt = Some nxt'"
proof (induction es arbitrary: nxt)
  case Nil
  then show ?case by simp
next
  case (Cons e es)
  from Cons.prems have s: "unat (src e) < capacity f" and d: "unat (dst e) < BITS_PER_LONG * length nxt"
    and rest: "\<forall>e\<in>set es. unat (src e) < capacity f \<and> unat (dst e) < BITS_PER_LONG * length nxt"
    by auto
  from frontier_test_total[OF s] obtain bs where bs: "frontier_test f (src e) = Some bs" ..
  from set_bit_total[OF d] obtain n1 where n1: "set_bit_nonatomic (unat (dst e)) nxt = Some n1" ..
  from rest bits_of_set_bit(2)[OF n1]
  have rest1: "\<forall>e\<in>set es. unat (src e) < capacity f \<and> unat (dst e) < BITS_PER_LONG * length n1"
    by simp
  show ?case
    using bs n1 Cons.IH[OF rest] Cons.IH[OF rest1]
    by (cases bs; simp)
qed


lemma frontier_set_ok:
  "frontier_set f idx = Some f' \<Longrightarrow> frontier_ok f' \<longleftrightarrow> frontier_ok f"
  by (auto simp: frontier_set_def frontier_ok_def set_bit_nonatomic_def split: option.splits if_splits)

lemma closure_pass_ok:
  "closure_pass es f ch = Some (f', ch') \<Longrightarrow> frontier_ok f \<Longrightarrow> frontier_ok f'"
proof (induction es arbitrary: f ch)
  case Nil
  then show ?case by simp
next
  case (Cons e es)
  show ?case
  proof (cases "is_epsilon e \<noteq> 0 \<and> frontier_test f (src e) = Some True \<and> frontier_test f (dst e) = Some False")
    case True
    then obtain f1 where f1: "frontier_set f (dst e) = Some f1" and rest: "closure_pass es f1 True = Some (f', ch')"
      using Cons.prems by (auto split: option.splits)
    from frontier_set_ok[OF f1] Cons.prems(2) have "frontier_ok f1" by simp
    from Cons.IH[OF rest this] show ?thesis .
  next
    case False
    then have "closure_pass es f ch = Some (f', ch')"
      using Cons.prems by (auto split: option.splits bool.splits if_splits)
    from Cons.IH[OF this Cons.prems(2)] show ?thesis .
  qed
qed

lemma epsilon_closure_ok:
  "epsilon_closure pp = Some pp' \<Longrightarrow> frontier_ok (fr pp) \<Longrightarrow> frontier_ok (fr pp')"
proof (induction pp rule: epsilon_closure.induct)
  case (1 pp)
  from "1.prems"(1) obtain f' ch
    where cp: "closure_pass (edge_array pp) (fr pp) False = Some (f', ch)"
    by (subst (asm) epsilon_closure.simps) (auto split: option.splits)
  from closure_pass_ok[OF cp "1.prems"(2)] have ok: "frontier_ok f'" .
  show ?case
  proof (cases ch)
    case True
    with cp "1.prems"(1) have rec: "epsilon_closure (pp\<lparr>fr := f'\<rparr>) = Some pp'"
      by (subst (asm) epsilon_closure.simps) simp
    from "1.IH"[OF cp refl True rec] ok show ?thesis by simp
  next
    case False
    with cp "1.prems"(1) have "pp' = pp\<lparr>fr := f'\<rparr>"
      by (subst (asm) epsilon_closure.simps) simp
    with ok show ?thesis by simp
  qed
qed

lemma word_nonzero_bit: "(w::ulong) \<noteq> 0 \<Longrightarrow> \<exists>k<64. bit w k"
proof -
  assume "w \<noteq> 0"
  then obtain k where "bit w k" by (auto simp: bit_eq_iff)
  moreover from this have "k < 64" using bit_imp_le_length[of w k] by simp
  ultimately show ?thesis by blast
qed

lemma bits_of_empty_iff: "bits_of bm = {} \<longleftrightarrow> (\<forall>w\<in>set bm. w = 0)"
proof
  assume e: "bits_of bm = {}"
  show "\<forall>w\<in>set bm. w = 0"
  proof (rule ballI, rule ccontr)
    fix w assume "w \<in> set bm" "w \<noteq> 0"
    then obtain j where j: "j < length bm" "bm ! j = w" by (auto simp: in_set_conv_nth)
    from word_nonzero_bit[OF \<open>w \<noteq> 0\<close>] obtain k where k: "k < 64" "bit w k" by blast
    have "j * 64 + k \<in> bits_of bm" using j k by (simp add: bits_of_def BITS_PER_LONG_def)
    with e show False by simp
  qed
next
  assume "\<forall>w\<in>set bm. w = 0"
  then have "\<And>j. j < length bm \<Longrightarrow> bm ! j = 0" by simp
  then show "bits_of bm = {}" by (auto simp: bits_of_def)
qed

lemma words_zero_all: "words_zero (length bm) bm = Some (\<forall>w\<in>set bm. w = 0)"
  by (induction bm) auto

lemma frontier_empty_ok:
  "frontier_ok f \<Longrightarrow> frontier_empty f = Some (active f = {})"
  by (auto simp: frontier_ok_def frontier_empty_def active_def words_zero_all[symmetric] bits_of_empty_iff
      split: option.splits)

lemma le_capacity_longs: "k \<le> BITS_PER_LONG * BITS_TO_LONGS k"
  by (simp add: BITS_PER_LONG_def BITS_TO_LONGS_def)

lemma policy_ok_bounds:
  assumes "policy_ok pp" "e \<in> set (edge_array pp)"
  shows "unat (src e) < capacity (fr pp)" "unat (dst e) < capacity (fr pp)"
proof -
  from assms(1) obtain bm where bm: "bitmap (fr pp) = Some bm"
    and len: "length bm = BITS_TO_LONGS (unat (fr_num_nodes (fr pp)))"
    by (auto simp: policy_ok_def frontier_ok_def split: option.splits)
  from assms have "src e < fr_num_nodes (fr pp)" "dst e < fr_num_nodes (fr pp)"
    by (auto simp: policy_ok_def edges_in_range_def)
  then have "unat (src e) < unat (fr_num_nodes (fr pp))" "unat (dst e) < unat (fr_num_nodes (fr pp))"
    by (simp_all add: word_less_nat_alt)
  with le_capacity_longs[of "unat (fr_num_nodes (fr pp))"] bm len
  show "unat (src e) < capacity (fr pp)" "unat (dst e) < capacity (fr pp)"
    by (simp_all add: capacity_def)
qed

section \<open>The start set computed when a policy is installed\<close>


definition indeg_of :: "edge list \<Rightarrow> nat \<Rightarrow> nat" where
  "indeg_of es k = length (filter (\<lambda>e. is_epsilon e = 0 \<and> unat (dst e) = k) es)"

definition start_nodes :: "edge list \<Rightarrow> nat \<Rightarrow> nat set" where
  "start_nodes es n = set (filter (\<lambda>k. indeg_of es k = 0) [0 ..< n])"

lemma indeg_of_Cons:
  "indeg_of (e # es) k = (if is_epsilon e = 0 \<and> unat (dst e) = k then 1 else 0) + indeg_of es k"
  by (simp add: indeg_of_def)

lemma indeg_of_le: "indeg_of es k \<le> length es"
  by (simp add: indeg_of_def)

lemma count_indeg_spec:
  "count_indeg es indeg = Some indeg' \<Longrightarrow>
     length indeg' = length indeg \<and>
     (\<forall>k<length indeg. indeg' ! k = indeg ! k + of_nat (indeg_of es k))"
proof (induction es arbitrary: indeg)
  case Nil
  then show ?case by (simp add: indeg_of_def)
next
  case (Cons e es)
  show ?case
  proof (cases "is_epsilon e = 0")
    case True
    with Cons.prems have lt: "unat (dst e) < length indeg"
      and rest: "count_indeg es (indeg[unat (dst e) := indeg ! unat (dst e) + 1]) = Some indeg'"
      by (auto split: if_splits)
    from Cons.IH[OF rest] True lt show ?thesis
      by (auto simp: indeg_of_Cons nth_list_update)
  next
    case False
    with Cons.prems have "count_indeg es indeg = Some indeg'" by simp
    from Cons.IH[OF this] False show ?thesis by (simp add: indeg_of_Cons)
  qed
qed

lemma count_indeg_total:
  "\<forall>e\<in>set es. is_epsilon e = 0 \<longrightarrow> unat (dst e) < length indeg \<Longrightarrow>
     \<exists>r. count_indeg es indeg = Some r"
  by (induction es arbitrary: indeg) auto

lemma u32_of_nat_eq_0:
  assumes c: "c < 2 ^ 32"
  shows "(of_nat c :: u32) = 0 \<longleftrightarrow> c = 0"
proof
  assume z: "(of_nat c :: u32) = 0"
  from z have "2 ^ LENGTH(32) dvd c" by (simp only: word_of_nat_eq_0_iff)
  then have "c = 0 \<or> 2 ^ LENGTH(32) \<le> c" by (auto dest: dvd_imp_le)
  with c show "c = 0" by simp
next
  assume "c = 0"
  then show "(of_nat c :: u32) = 0" by simp
qed

lemma u32_unat_of_nat: "k < 2 ^ 32 \<Longrightarrow> unat (of_nat k :: u32) = k"
  by (rule of_nat_inverse[OF refl]) simp

lemma start_loop_spec:
  "start_loop ns indeg f = Some f' \<Longrightarrow> \<forall>k\<in>set ns. k < 2 ^ 32 \<Longrightarrow>
     active f' = active f \<union> {k \<in> set ns. indeg ! k = 0} \<and>
     capacity f' = capacity f \<and> fr_num_nodes f' = fr_num_nodes f \<and>
     (frontier_ok f' \<longleftrightarrow> frontier_ok f)"
proof (induction ns arbitrary: f)
  case Nil
  then show ?case by simp
next
  case (Cons n ns)
  from Cons.prems(2) have n32: "n < 2 ^ 32" and rest32: "\<forall>k\<in>set ns. k < 2 ^ 32" by auto
  show ?case
  proof (cases "indeg ! n = 0")
    case True
    with Cons.prems(1) obtain f1 where f1: "frontier_set f (of_nat n) = Some f1"
      and rest: "start_loop ns indeg f1 = Some f'"
      by (auto split: if_splits option.splits)
    from frontier_set_active[OF f1] frontier_set_ok[OF f1] u32_unat_of_nat[OF n32]
    have "active f1 = insert n (active f)" "capacity f1 = capacity f"
      "fr_num_nodes f1 = fr_num_nodes f" "frontier_ok f1 \<longleftrightarrow> frontier_ok f" by simp_all
    with Cons.IH[OF rest rest32] True show ?thesis by auto
  next
    case False
    with Cons.prems(1) have "start_loop ns indeg f = Some f'" by (auto split: if_splits)
    from Cons.IH[OF this rest32] False show ?thesis by auto
  qed
qed

lemma start_loop_total:
  "\<forall>k\<in>set ns. k < length indeg \<and> k < capacity f \<and> k < 2 ^ 32 \<Longrightarrow>
     \<exists>f'. start_loop ns indeg f = Some f'"
proof (induction ns arbitrary: f)
  case Nil
  then show ?case by simp
next
  case (Cons n ns)
  from Cons.prems have n: "n < length indeg" "n < capacity f" "n < 2 ^ 32"
    and rest: "\<forall>k\<in>set ns. k < length indeg \<and> k < capacity f \<and> k < 2 ^ 32" by auto
  from n have "unat (of_nat n :: u32) < capacity f" by (simp add: u32_unat_of_nat)
  from frontier_set_total[OF this] obtain f1 where f1: "frontier_set f (of_nat n) = Some f1" ..
  from rest frontier_set_active(2)[OF f1]
  have rest1: "\<forall>k\<in>set ns. k < length indeg \<and> k < capacity f1 \<and> k < 2 ^ 32" by simp
  show ?case using n(1) f1 Cons.IH[OF rest] Cons.IH[OF rest1] by simp
qed


lemma init_start_set_spec:
  assumes ok: "frontier_ok f" and n: "fr_num_nodes f = num_nodes hdr" and nz: "num_nodes hdr \<noteq> 0"
    and rng: "edges_in_range es (num_nodes hdr)" and len: "length es < 2 ^ 32"
    and empty: "active f = {}"
  shows "\<exists>f'. init_start_set indeg_ok hdr es f = Some f' \<and> frontier_ok f' \<and>
           capacity f' = capacity f \<and>
           active f' = (if indeg_ok then start_nodes es (unat (num_nodes hdr)) else {0})"
proof -
  let ?n = "unat (num_nodes hdr)"
  from ok n obtain bm where bm: "bitmap f = Some bm" and lbm: "length bm = BITS_TO_LONGS ?n"
    by (auto simp: frontier_ok_def split: option.splits)
  have cap: "?n \<le> capacity f"
    using le_capacity_longs[of ?n] by (simp add: capacity_def bm lbm)
  from nz have pos: "0 < ?n" by (simp add: unat_gt_0)
  show ?thesis
  proof (cases indeg_ok)
    case False
    from pos cap have "unat (0::u32) < capacity f" by simp
    from frontier_set_total[OF this] obtain f' where f': "frontier_set f 0 = Some f'" ..
    from frontier_set_active[OF f'] frontier_set_ok[OF f'] ok empty False f'
    show ?thesis by (simp add: init_start_set_def kcalloc_def)
  next
    case True
    have "\<forall>e\<in>set es. is_epsilon e = 0 \<longrightarrow> unat (dst e) < length (replicate ?n (0::u32))"
      using rng by (simp add: edges_in_range_def word_less_nat_alt)
    from count_indeg_total[OF this] obtain indeg
      where ci: "count_indeg es (replicate ?n 0) = Some indeg" ..
    from count_indeg_spec[OF ci]
    have li: "length indeg = ?n" and iv: "\<And>k. k < ?n \<Longrightarrow> indeg ! k = of_nat (indeg_of es k)"
      by simp_all
    have n32: "?n < 2 ^ 32" using unsigned_less[of "num_nodes hdr"] by simp
    have "\<forall>k\<in>set [0..<?n]. k < length indeg \<and> k < capacity f \<and> k < 2 ^ 32"
      using li cap n32 by simp
    from start_loop_total[OF this] obtain f' where sl: "start_loop [0..<?n] indeg f = Some f'" ..
    have "\<forall>k\<in>set [0..<?n]. k < (2::nat) ^ 32" using n32 by simp
    from start_loop_spec[OF sl this]
    have act: "active f' = active f \<union> {k \<in> set [0..<?n]. indeg ! k = 0}"
      and c: "capacity f' = capacity f" and okf: "frontier_ok f'" using ok by simp_all
    have "\<And>k. k < ?n \<Longrightarrow> indeg ! k = 0 \<longleftrightarrow> indeg_of es k = 0"
    proof -
      fix k assume k: "k < ?n"
      have "indeg_of es k < 2 ^ 32" using indeg_of_le[of es k] len by simp
      from u32_of_nat_eq_0[OF this] iv[OF k] show "indeg ! k = 0 \<longleftrightarrow> indeg_of es k = 0" by simp
    qed
    then have "{k \<in> set [0..<?n]. indeg ! k = 0} = start_nodes es ?n"
      by (auto simp: start_nodes_def)
    with act empty have "active f' = start_nodes es ?n" by simp
    with True ci sl c okf show ?thesis by (simp add: init_start_set_def kcalloc_def)
  qed
qed

section \<open>LLVM pass: extraction of the per-function automaton\<close>

text \<open>
  Embedding of \<^verbatim>\<open>LibCallPass::run\<close> and of the \<^verbatim>\<open>Graph\<close> methods in
  \<^verbatim>\<open>llvm-pass/src/LibCallPass.cpp\<close>, for one function with a body.  Of the IR only what
  the pass reads is kept: per instruction the called function (if the instruction is a
  direct call) and the line of its debug location; per basic block its address, its
  instructions and the addresses of its successors.  \<open>std::map<const BasicBlock*, \<dots>>\<close>
  iterates in the order of the addresses.  The DOT output, the inserted \<open>dummy\<close> calls and
  the bucket table of \<open>Graph\<close> do not influence the policy and are left out.
\<close>

record called_function =
  fn_name :: string
  fn_is_declaration :: bool

record instruction =
  called :: "called_function option"
  debug_line :: "nat option"

record basic_block =
  addr :: nat
  instrs :: "instruction list"
  successors :: "nat list"

record ir_function =
  f_name :: string
  blocks :: "basic_block list"

definition isCandidateLibCall :: "instruction \<Rightarrow> bool" where
  "isCandidateLibCall i =
     (case called i of
        None \<Rightarrow> False
      | Some c \<Rightarrow>
          if \<not> fn_is_declaration c then False
          else if prefix ''llvm.'' (fn_name c) then False
          else True)"

text \<open>An \<open>Instruction*\<close> is the address of its block and its position in the block; an
  element of \<open>BBCallList::calls\<close> is that pointer together with the call it points to.\<close>

type_synonym instr_ptr = "nat \<times> nat"
type_synonym call_site = "instr_ptr \<times> instruction"

definition callee_name :: "call_site \<Rightarrow> string" where
  "callee_name s = (case called (snd s) of None \<Rightarrow> [] | Some c \<Rightarrow> fn_name c)"

definition SIZE_MAX :: nat where
  "SIZE_MAX = 2 ^ 64 - 1"

record NeighborEdge =
  target :: nat
  label :: string

record Node =
  viewedCalls :: "nat list"
  dummyID :: int
  uniqueID :: int
  pretty :: string

record Graph =
  functionName :: string
  nodes :: "Node list"
  g_edges :: "NeighborEdge list"
  adj :: "nat list list"

record BBCallList =
  calls :: "call_site list"
  entryNode :: nat
  exitNode :: nat

definition epsilon_label :: string where
  "epsilon_label = [CHR 0xCF, CHR 0xB5]"

definition addNodeRetIndex :: "Graph \<Rightarrow> string \<Rightarrow> nat \<times> Graph" where
  "addNodeRetIndex G p =
     (length (nodes G),
      G\<lparr>nodes := nodes G @ [\<lparr>viewedCalls = [], dummyID = - 1, uniqueID = - 1, pretty = p\<rparr>],
        adj := adj G @ [[]]\<rparr>)"

text \<open>\<open>addEdge\<close> indexes \<open>adj\<close> and \<open>nodes\<close> with \<open>src\<close>; outside the vectors that is
  undefined behaviour, \<open>None\<close> here.\<close>

definition addEdge :: "Graph \<Rightarrow> nat \<Rightarrow> nat \<Rightarrow> string \<Rightarrow> Graph option" where
  "addEdge G s d l =
     (if s < length (adj G) \<and> s < length (nodes G)
      then Some (G\<lparr>g_edges := g_edges G @ [\<lparr>target = d, label = l\<rparr>],
                   adj := (adj G)[s := adj G ! s @ [length (g_edges G)]],
                   nodes := (nodes G)[s := (nodes G ! s)\<lparr>viewedCalls := viewedCalls (nodes G ! s) @ [d]\<rparr>]\<rparr>)
      else None)"

text \<open>First loop over the blocks: the candidate calls of a block, in order.\<close>

definition calls_of_block :: "basic_block \<Rightarrow> call_site list" where
  "calls_of_block bb =
     map (\<lambda>i. ((addr bb, i), instrs bb ! i))
       (filter (\<lambda>i. isCandidateLibCall (instrs bb ! i)) [0 ..< length (instrs bb)])"

text \<open>\<open>bbMap\<close> as the list of its entries in iteration order.\<close>

type_synonym bb_map = "(nat \<times> basic_block \<times> BBCallList) list"

definition build_bbMap :: "ir_function \<Rightarrow> bb_map" where
  "build_bbMap F =
     map (\<lambda>bb. (addr bb, bb, \<lparr>calls = calls_of_block bb, entryNode = SIZE_MAX, exitNode = SIZE_MAX\<rparr>))
       (sort_key addr (blocks F))"

definition bb_find :: "bb_map \<Rightarrow> nat \<Rightarrow> BBCallList option" where
  "bb_find m k = map_option snd (map_of m k)"

definition bb_store :: "bb_map \<Rightarrow> nat \<Rightarrow> BBCallList \<Rightarrow> bb_map" where
  "bb_store m k v = map (\<lambda>(k', bb, v'). if k' = k then (k', bb, v) else (k', bb, v')) m"

text \<open>Second loop: one node per call, in the iteration order of \<open>bbMap\<close>;
  \<open>callNodeIndex[pr.first] = idx\<close>.\<close>

type_synonym node_index = "instr_ptr \<rightharpoonup> nat"

fun create_nodes :: "call_site list \<Rightarrow> Graph \<times> node_index \<Rightarrow> Graph \<times> node_index" where
  "create_nodes [] st = st"
| "create_nodes (s # ss) (G, cni) =
     (let (idx, G') = addNodeRetIndex G (callee_name s)
      in create_nodes ss (G', cni(fst s \<mapsto> idx)))"

text \<open>\<open>callNodeIndex[p]\<close>: \<open>operator[]\<close> of \<open>std::map\<close> yields a value-initialised entry,
  \<open>0\<close>, for a key that is absent.\<close>

definition cni_at :: "node_index \<Rightarrow> instr_ptr \<Rightarrow> nat" where
  "cni_at cni p = (case cni p of None \<Rightarrow> 0 | Some i \<Rightarrow> i)"

text \<open>Third loop, per block: the edges between consecutive calls of the block \<dots>\<close>

fun seq_edges :: "node_index \<Rightarrow> call_site list \<Rightarrow> Graph \<Rightarrow> Graph option" where
  "seq_edges cni (s1 # s2 # ss) G =
     (case addEdge G (cni_at cni (fst s1)) (cni_at cni (fst s2)) (callee_name s1) of
        None \<Rightarrow> None
      | Some G' \<Rightarrow> seq_edges cni (s2 # ss) G')"
| "seq_edges cni ss G = Some G"

text \<open>\<dots> and an \<epsilon>-edge to every successor whose call list is not empty.  The target is
  the \<open>entryNode\<close> field the successor has in \<open>bbMap\<close> at that moment.\<close>

fun succ_edges :: "bb_map \<Rightarrow> nat \<Rightarrow> nat list \<Rightarrow> Graph \<Rightarrow> Graph option" where
  "succ_edges m ex [] G = Some G"
| "succ_edges m ex (sc # scs) G =
     (case bb_find m sc of
        None \<Rightarrow> succ_edges m ex scs G
      | Some l \<Rightarrow>
          if calls l \<noteq> []
          then (case addEdge G ex (entryNode l) epsilon_label of
                  None \<Rightarrow> None
                | Some G' \<Rightarrow> succ_edges m ex scs G')
          else succ_edges m ex scs G)"

fun edge_loop :: "node_index \<Rightarrow> (nat \<times> basic_block \<times> BBCallList) list \<Rightarrow> bb_map \<times> Graph \<Rightarrow>
    (bb_map \<times> Graph) option" where
  "edge_loop cni [] st = Some st"
| "edge_loop cni ((k, bb, l0) # rest) (m, G) =
     (let l = (if calls l0 \<noteq> []
               then l0\<lparr>entryNode := cni_at cni (fst (hd (calls l0))),
                       exitNode := cni_at cni (fst (last (calls l0)))\<rparr>
               else l0);
          m1 = bb_store m k l
      in case seq_edges cni (calls l) G of
           None \<Rightarrow> None
         | Some G1 \<Rightarrow>
             if calls l \<noteq> []
             then (case succ_edges m1 (exitNode l) (successors bb) G1 of
                     None \<Rightarrow> None
                   | Some G2 \<Rightarrow> edge_loop cni rest (m1, G2))
             else edge_loop cni rest (m1, G1))"

text \<open>Decimal output of \<open>std::ostream\<close> and \<open>Twine\<close> for unsigned and signed integers.\<close>

definition digit_char :: "nat \<Rightarrow> char" where
  "digit_char d = char_of (48 + d)"

function show_nat :: "nat \<Rightarrow> string" where
  "show_nat n = (if n < 10 then [digit_char n] else show_nat (n div 10) @ [digit_char (n mod 10)])"
  by pat_completeness auto
termination
  by (relation "measure id") auto

declare show_nat.simps [simp del]

definition show_int :: "int \<Rightarrow> string" where
  "show_int i = (if i < 0 then CHR ''-'' # show_nat (nat (- i)) else show_nat (nat i))"

text \<open>The policy structures of \<^verbatim>\<open>Policy/LibCallGraph.h\<close>.\<close>

record LibCallSite =
  name :: string
  site_uniqueID :: int
  site_dummyID :: int
  resetCount :: int
  irLocation :: string

record JEdge =
  je_src :: nat
  je_dst :: nat
  je_label :: string
  matchDummy :: int
  matchUnique :: int

record FuncPolicy =
  fp_functionName :: string
  callsInOrder :: "LibCallSite list"
  fp_mod :: nat
  idMode :: string
  nodeLabels :: "string list"
  nodeDummyIDs :: "int list"
  nodeUniqueIDs :: "int list"
  fp_edges :: "JEdge list"

text \<open>Fourth loop, over the calls in program order: the two counters are \<open>unsigned\<close>,
  the identifiers stored are their conversions to \<open>int\<close>.  \<open>dc / HashMod\<close> with
  \<open>HashMod = 0\<close> is undefined behaviour, \<open>None\<close> here.\<close>

definition ir_location :: "instruction \<Rightarrow> string" where
  "ir_location i = (case debug_line i of None \<Rightarrow> ''unknown'' | Some n \<Rightarrow> ''line '' @ show_nat n)"

fun assign_ids :: "u32 \<Rightarrow> string \<Rightarrow> node_index \<Rightarrow> call_site list \<Rightarrow>
    u32 \<times> u32 \<times> Graph \<times> LibCallSite list \<Rightarrow> (u32 \<times> u32 \<times> Graph \<times> LibCallSite list) option" where
  "assign_ids HashMod IdModeOpt cni [] st = Some st"
| "assign_ids HashMod IdModeOpt cni (s # ss) (uc, dc, G, sites) =
     (if HashMod = 0 then None
      else
        let uniqueID = uc + 1;
            reset = dc div HashMod;
            dummy = dc mod HashMod;
            site = \<lparr>name = callee_name s,
                    site_uniqueID = (if IdModeOpt = ''unique'' then sint uniqueID else - 1),
                    site_dummyID = sint dummy,
                    resetCount = sint reset,
                    irLocation = ir_location (snd s)\<rparr>
        in case cni (fst s) of
             None \<Rightarrow> assign_ids HashMod IdModeOpt cni ss (uniqueID, dc + 1, G, sites @ [site])
           | Some idx \<Rightarrow>
               if idx < length (nodes G)
               then assign_ids HashMod IdModeOpt cni ss
                      (uniqueID, dc + 1,
                       G\<lparr>nodes := (nodes G)[idx := (nodes G ! idx)\<lparr>dummyID := sint dummy,
                                                                  uniqueID := sint uniqueID\<rparr>]\<rparr>,
                       sites @ [site])
               else None)"

text \<open>Export of the edges: for every \<open>src\<close>, the edges listed in \<open>adj[src]\<close>.\<close>

definition export_edge :: "Graph \<Rightarrow> nat \<Rightarrow> nat \<Rightarrow> JEdge option" where
  "export_edge G s eid =
     (if eid < length (g_edges G) then
        let E = g_edges G ! eid in
        if label E = epsilon_label
        then Some \<lparr>je_src = s, je_dst = target E, je_label = label E,
                   matchDummy = - 1, matchUnique = - 1\<rparr>
        else if s < length (nodes G)
        then Some \<lparr>je_src = s, je_dst = target E, je_label = label E,
                   matchDummy = dummyID (nodes G ! s), matchUnique = uniqueID (nodes G ! s)\<rparr>
        else None
      else None)"

fun export_row :: "Graph \<Rightarrow> nat \<Rightarrow> nat list \<Rightarrow> JEdge list option" where
  "export_row G s [] = Some []"
| "export_row G s (eid # eids) =
     (case export_edge G s eid of
        None \<Rightarrow> None
      | Some je \<Rightarrow> map_option ((#) je) (export_row G s eids))"

fun export_rows :: "Graph \<Rightarrow> nat list \<Rightarrow> JEdge list option" where
  "export_rows G [] = Some []"
| "export_rows G (s # ss) =
     (case export_row G s (adj G ! s) of
        None \<Rightarrow> None
      | Some row \<Rightarrow> map_option ((@) row) (export_rows G ss))"

text \<open>The body of the loop over the functions of the module, for one function.
  \<open>HashMod\<close> and \<open>IdModeOpt\<close> are the command-line options.\<close>

definition program_calls :: "ir_function \<Rightarrow> call_site list" where
  "program_calls F = concat (map calls_of_block (blocks F))"

definition map_calls :: "bb_map \<Rightarrow> call_site list" where
  "map_calls m = concat (map (\<lambda>(k, bb, l). calls l) m)"

definition extract_graph :: "ir_function \<Rightarrow> (node_index \<times> Graph) option" where
  "extract_graph F =
     (let m = build_bbMap F;
          (G1, cni) = create_nodes (map_calls m)
                        (\<lparr>functionName = f_name F, nodes = [], g_edges = [], adj = []\<rparr>, Map.empty)
      in case edge_loop cni m (m, G1) of
           None \<Rightarrow> None
         | Some (m', G2) \<Rightarrow> Some (cni, G2))"

definition run_function :: "u32 \<Rightarrow> string \<Rightarrow> ir_function \<Rightarrow> FuncPolicy option" where
  "run_function HashMod IdModeOpt F =
     (case extract_graph F of
        None \<Rightarrow> None
      | Some (cni, G2) \<Rightarrow>
          (case assign_ids HashMod IdModeOpt cni (program_calls F) (0, 0, G2, []) of
             None \<Rightarrow> None
           | Some (uc, dc, G, sites) \<Rightarrow>
               (case export_rows G [0 ..< length (adj G)] of
                  None \<Rightarrow> None
                | Some es \<Rightarrow>
                    Some \<lparr>fp_functionName = functionName G,
                          callsInOrder = sites,
                          fp_mod = unat HashMod,
                          idMode = IdModeOpt,
                          nodeLabels = map pretty (nodes G),
                          nodeDummyIDs = map dummyID (nodes G),
                          nodeUniqueIDs = map uniqueID (nodes G),
                          fp_edges = es\<rparr>)))"

section \<open>Properties of the extraction\<close>








definition same_ids :: "Graph \<Rightarrow> Graph \<Rightarrow> bool" where
  "same_ids G G' \<longleftrightarrow>
     length (nodes G') = length (nodes G) \<and>
     map dummyID (nodes G') = map dummyID (nodes G) \<and>
     map uniqueID (nodes G') = map uniqueID (nodes G) \<and>
     map pretty (nodes G') = map pretty (nodes G) \<and>
     functionName G' = functionName G"

lemma same_ids_refl [simp]: "same_ids G G"
  by (simp add: same_ids_def)
























section \<open>The policy artifact: \<open>PolicyJSON::serialize\<close>\<close>

text \<open>The text written by \<open>serialize\<close>, byte for byte.  \<open>dq\<close> is the double quote and \<open>nl\<close>
  the newline; \<open>quoted s\<close> is \<open>s\<close> between double quotes, as the source writes strings
  (without escaping).\<close>

abbreviation (input) dq :: char where
  "dq \<equiv> CHR 0x22"

abbreviation (input) nl :: char where
  "nl \<equiv> CHR 0x0A"

definition quoted :: "string \<Rightarrow> string" where
  "quoted s = dq # s @ [dq]"

text \<open>The loops that print a separator after every element but the last.\<close>

fun comma_sep :: "('a \<Rightarrow> string) \<Rightarrow> 'a list \<Rightarrow> string" where
  "comma_sep f [] = []"
| "comma_sep f (x # xs) = f x @ (if xs \<noteq> [] then '','' else []) @ comma_sep f xs"

fun comma_lines :: "('a \<Rightarrow> string) \<Rightarrow> 'a list \<Rightarrow> string" where
  "comma_lines f [] = []"
| "comma_lines f (x # xs) = f x @ (if xs \<noteq> [] then '','' else []) @ [nl] @ comma_lines f xs"

definition ser_call :: "LibCallSite \<Rightarrow> string" where
  "ser_call c =
     ''        {'' @ quoted ''name'' @ '':'' @ quoted (name c) @
     '','' @ quoted ''uniqueID'' @ '':'' @ show_int (site_uniqueID c) @
     '','' @ quoted ''dummyID'' @ '':'' @ show_int (site_dummyID c) @
     '','' @ quoted ''resetCount'' @ '':'' @ show_int (resetCount c) @
     '','' @ quoted ''irLocation'' @ '':'' @ quoted (irLocation c) @ ''}''"

definition ser_edge :: "JEdge \<Rightarrow> string" where
  "ser_edge E =
     ''        {'' @ quoted ''src'' @ '':'' @ show_nat (je_src E) @
     '','' @ quoted ''dst'' @ '':'' @ show_nat (je_dst E) @
     '','' @ quoted ''label'' @ '':'' @ quoted (je_label E) @
     '','' @ quoted ''matchDummy'' @ '':'' @ show_int (matchDummy E) @
     '','' @ quoted ''matchUnique'' @ '':'' @ show_int (matchUnique E) @ ''}''"

definition ser_function :: "FuncPolicy \<Rightarrow> string" where
  "ser_function f =
     ''    {'' @ [nl] @
     ''      '' @ quoted ''functionName'' @ '': '' @ quoted (fp_functionName f) @ '','' @ [nl] @
     ''      '' @ quoted ''mod'' @ '': '' @ show_nat (fp_mod f) @ '','' @ [nl] @
     ''      '' @ quoted ''idMode'' @ '': '' @ quoted (idMode f) @ '','' @ [nl] @
     ''      '' @ quoted ''callsInOrder'' @ '': ['' @ [nl] @
     comma_lines ser_call (callsInOrder f) @
     ''      ],'' @ [nl] @
     ''      '' @ quoted ''nodeLabels'' @ '': ['' @ comma_sep quoted (nodeLabels f) @ ''],'' @ [nl] @
     ''      '' @ quoted ''nodeDummyIDs'' @ '': ['' @ comma_sep show_int (nodeDummyIDs f) @ ''],'' @ [nl] @
     ''      '' @ quoted ''nodeUniqueIDs'' @ '': ['' @ comma_sep show_int (nodeUniqueIDs f) @ ''],'' @ [nl] @
     ''      '' @ quoted ''edges'' @ '': ['' @ [nl] @
     comma_lines ser_edge (fp_edges f) @
     ''      ]'' @ [nl] @
     ''    }''"

definition serialize :: "FuncPolicy list \<Rightarrow> string" where
  "serialize functions =
     ''{'' @ [nl] @ ''  '' @ quoted ''functions'' @ '': ['' @ [nl] @
     comma_lines ser_function functions @
     ''  ]'' @ [nl] @ ''}'' @ [nl]"

section \<open>The loader \<open>sandboxctl\<close>\<close>

text \<open>
  Embedding of the loader (the file with \<open>extract_graph_edges\<close> and \<open>main\<close>).  A C string
  is the list of its characters before the terminating NUL; a pointer into it is the
  suffix that starts there, so for two pointers into the same string \<open>p < q\<close> holds
  exactly when the suffix \<open>p\<close> is the longer one.  \<open>Undefined\<close> stands for undefined
  behaviour (a \<open>NULL\<close> handed to \<open>strchr\<close>, a write behind the edge array), \<open>Failed\<close> for the
  return value \<open>-1\<close>.
\<close>

datatype cfail = Undefined | Failed

fun strstr :: "string \<Rightarrow> string \<Rightarrow> string option" where
  "strstr [] needle = (if needle = [] then Some [] else None)"
| "strstr (c # cs) needle = (if prefix needle (c # cs) then Some (c # cs) else strstr cs needle)"

fun strchr :: "string \<Rightarrow> char \<Rightarrow> string option" where
  "strchr [] c = None"
| "strchr (x # xs) c = (if x = c then Some (x # xs) else strchr xs c)"

definition isspace :: "char \<Rightarrow> bool" where
  "isspace c \<longleftrightarrow> c \<in> {CHR '' '', CHR 0x09, CHR 0x0A, CHR 0x0B, CHR 0x0C, CHR 0x0D}"

definition isdigit :: "char \<Rightarrow> bool" where
  "isdigit c \<longleftrightarrow> 48 \<le> (of_char c :: nat) \<and> (of_char c :: nat) \<le> 57"

text \<open>\<open>atoi\<close> of the C library is \<open>(int) strtol(s, NULL, 10)\<close>: optional white space, an
  optional sign, then digits; \<open>strtol\<close> saturates at \<open>LONG_MAX\<close> and \<open>LONG_MIN\<close> (64 bits),
  and the conversion to \<open>int\<close> keeps the low 32 bits.\<close>

definition LONG_MAX :: int where
  "LONG_MAX = 2 ^ 63 - 1"

definition LONG_MIN :: int where
  "LONG_MIN = - (2 ^ 63)"

definition strtol :: "string \<Rightarrow> int" where
  "strtol s =
     (let s1 = dropWhile isspace s;
          neg = (s1 \<noteq> [] \<and> hd s1 = CHR ''-'');
          s2 = (if s1 \<noteq> [] \<and> (hd s1 = CHR ''-'' \<or> hd s1 = CHR ''+'') then tl s1 else s1);
          v = foldl (\<lambda>a c. 10 * a + (int (of_char c) - 48)) 0 (takeWhile isdigit s2)
      in if neg then max LONG_MIN (- v) else min LONG_MAX v)"

definition atoi :: "string \<Rightarrow> int" where
  "atoi s = sint (word_of_int (strtol s) :: s32)"

text \<open>\<open>find_value(json, key, out, outsz)\<close>: the result is the string left in \<open>out\<close>.\<close>

definition find_value :: "string \<Rightarrow> string \<Rightarrow> nat \<Rightarrow> string option" where
  "find_value json key outsz =
     (case strstr json key of
        None \<Rightarrow> None
      | Some p0 \<Rightarrow>
          (case strchr p0 CHR '':'' of
             None \<Rightarrow> None
           | Some p1 \<Rightarrow>
               let p = dropWhile isspace (tl p1) in
               if p \<noteq> [] \<and> hd p = dq
               then Some (take (outsz - 1) (takeWhile (\<lambda>c. c \<noteq> dq) (tl p)))
               else Some (take (outsz - 1)
                            (takeWhile (\<lambda>c. c \<noteq> CHR '','' \<and> c \<noteq> CHR '']'' \<and> c \<noteq> CHR ''}'') p))))"

text \<open>The field \<open>key\<close> of the entry that starts at \<open>es\<close> and ends at \<open>ee\<close>:
  \<open>field = strstr(es, "\"key\""); field && field < ee && find_value(field, key, buf, 64) == 0\<close>.\<close>

definition entry_field :: "string \<Rightarrow> string \<Rightarrow> string \<Rightarrow> string option" where
  "entry_field es ee key =
     (case strstr es (quoted key) of
        None \<Rightarrow> None
      | Some field \<Rightarrow> if length field > length ee then find_value field key 64 else None)"

definition parse_entry :: "string \<Rightarrow> string \<Rightarrow> int \<Rightarrow> edge \<Rightarrow> edge" where
  "parse_entry es ee mode e0 =
     (let e1 = (case entry_field es ee ''src'' of
                  Some buf \<Rightarrow> e0\<lparr>src := word_of_int (atoi buf)\<rparr> | None \<Rightarrow> e0);
          e2 = (case entry_field es ee ''dst'' of
                  Some buf \<Rightarrow> e1\<lparr>dst := word_of_int (atoi buf)\<rparr> | None \<Rightarrow> e1);
          e3 = (case entry_field es ee ''label'' of
                  Some buf \<Rightarrow>
                    if buf = quoted epsilon_label \<or> buf = epsilon_label
                    then e2\<lparr>is_epsilon := 1\<rparr> else e2
                | None \<Rightarrow> e2)
      in case entry_field es ee (if mode = 0 then ''matchDummy'' else ''matchUnique'') of
           Some buf \<Rightarrow> e3\<lparr>match_id := word_of_int (atoi buf)\<rparr>
         | None \<Rightarrow> e3\<lparr>match_id := - 1\<rparr>)"

lemma strchr_length: "strchr s c = Some r \<Longrightarrow> length r \<le> length s \<and> r \<noteq> []"
  by (induction s) (auto split: if_splits)

text \<open>The ``crude parse loop'': \<open>cur\<close> runs through the text, \<open>en\<close> is the pointer \<open>end\<close>.\<close>

function parse_loop :: "string \<Rightarrow> string \<Rightarrow> int \<Rightarrow> nat \<Rightarrow> edge list \<Rightarrow> cfail + edge list" where
  "parse_loop cur en mode idx es_arr =
     (if length cur > length en then
        (case strchr cur CHR ''{'' of
           None \<Rightarrow> Inr es_arr
         | Some es \<Rightarrow>
             if length es \<le> length en then Inr es_arr
             else
               (case strchr es CHR ''}'' of
                  None \<Rightarrow> Inr es_arr
                | Some ee \<Rightarrow>
                    if idx < length es_arr
                    then parse_loop (tl ee) en mode (idx + 1)
                           (es_arr[idx := parse_entry es ee mode (es_arr ! idx)])
                    else Inl Undefined))
      else Inr es_arr)"
  by pat_completeness auto
termination
proof (relation "measure (\<lambda>(cur, en, mode, idx, es_arr). length cur)")
  show "wf (measure (\<lambda>(cur, en, mode, idx, es_arr). length cur))" by simp
next
  fix cur en :: string and mode :: int and idx :: nat and es_arr :: "edge list" and es ee
  assume "strchr cur CHR ''{'' = Some es" and "strchr es CHR ''}'' = Some ee"
  then have "length ee \<le> length cur" "ee \<noteq> []"
    using strchr_length[of cur "CHR ''{''" es] strchr_length[of es "CHR ''}''" ee] by simp_all
  then have "length (tl ee) < length cur" by (cases ee) simp_all
  then show "((tl ee, en, mode, idx + 1, es_arr[idx := parse_entry es ee mode (es_arr ! idx)]),
              (cur, en, mode, idx, es_arr))
             \<in> measure (\<lambda>(cur, en, mode, idx, es_arr). length cur)"
    by simp
qed

declare parse_loop.simps [simp del]

text \<open>The search for the \<open>(func_index + 1)\<close>-th occurrence of the key \<open>"edges":\<close>.\<close>

fun skip_to_edges :: "nat \<Rightarrow> string \<Rightarrow> string option" where
  "skip_to_edges 0 p = Some p"
| "skip_to_edges (Suc n) p =
     (case strstr p (quoted ''edges'' @ '':'') of
        None \<Rightarrow> None
      | Some q \<Rightarrow> skip_to_edges n (drop 8 q))"

record loaded_graph =
  lg_edges :: "edge list"
  lg_num_edges :: u32
  lg_num_nodes :: u32

definition zero_edge :: edge where
  "zero_edge = \<lparr>src = 0, dst = 0, match_id = 0, is_epsilon = 0\<rparr>"

text \<open>\<open>extract_graph_edges\<close>.  The first argument says whether \<open>calloc\<close> succeeds.\<close>

definition extract_graph_edges :: "bool \<Rightarrow> string \<Rightarrow> int \<Rightarrow> int \<Rightarrow> cfail + loaded_graph" where
  "extract_graph_edges calloc_ok json func_index mode =
     (case skip_to_edges (nat (func_index + 1)) json of
        None \<Rightarrow> Inl Failed
      | Some p \<Rightarrow>
          (case strchr p CHR ''['' of
             None \<Rightarrow> Inl Undefined
           | Some start \<Rightarrow>
               (case strchr start CHR '']'' of
                  None \<Rightarrow> Inl Failed
                | Some en \<Rightarrow>
                    if length en \<ge> length start then Inl Failed
                    else
                      (case strstr p (quoted ''nodeLabels'' @ '':'') of
                         None \<Rightarrow> Inl Failed
                       | Some nlp \<Rightarrow>
                           (case strchr nlp CHR ''['' of
                              None \<Rightarrow> Inl Undefined
                            | Some nlb \<Rightarrow>
                                (case strchr nlb CHR '']'' of
                                   None \<Rightarrow> Inl Failed
                                 | Some nle \<Rightarrow>
                                     let commas = length (filter (\<lambda>c. c = CHR '','')
                                                    (take (length nlb - length nle) nlb));
                                         nds = (if length nlb - length nle > 2
                                                then (of_nat commas + 1 :: u32) else 0);
                                         edges_count = length (filter (\<lambda>c. c = CHR ''{'')
                                                         (take (length start - length en) start))
                                     in if \<not> calloc_ok then Inl Failed
                                        else
                                          (case parse_loop start en mode 0
                                                  (replicate edges_count zero_edge) of
                                             Inl e \<Rightarrow> Inl e
                                           | Inr arr \<Rightarrow>
                                               Inr \<lparr>lg_edges = arr,
                                                    lg_num_edges = of_nat edges_count,
                                                    lg_num_nodes = nds\<rparr>)))))))"

text \<open>\<open>main\<close>, after the command line has been read: \<open>pid\<close> is the value of \<open>-p\<close>
  (\<open>-1\<close> when absent), \<open>json\<close> the content of the file named by \<open>-j\<close> (\<open>None\<close> when the
  option is absent or the file cannot be read), \<open>func_index\<close> the value of \<open>-f\<close> and
  \<open>mode\<close> is 1 with \<open>--unique\<close>, else 0.  The environment says whether \<open>calloc\<close>, \<open>open\<close> and
  \<open>malloc\<close> succeed and what the ioctl answers to a blob.  The result is the exit code.\<close>

record loader_env =
  le_calloc :: bool
  le_open :: bool
  le_malloc :: bool
  le_ioctl :: "policy_blob \<Rightarrow> edge list \<Rightarrow> bool"

definition loader_main :: "loader_env \<Rightarrow> int \<Rightarrow> string option \<Rightarrow> int \<Rightarrow> int \<Rightarrow> cfail + int" where
  "loader_main env p json func_index mode =
     (if p \<le> 0 then Inr 1
      else
        (case json of
           None \<Rightarrow> Inr 1
         | Some text \<Rightarrow>
             (case extract_graph_edges (le_calloc env) text func_index mode of
                Inl Undefined \<Rightarrow> Inl Undefined
              | Inl Failed \<Rightarrow> Inr 1
              | Inr g \<Rightarrow>
                  if \<not> le_open env then Inr 1
                  else if \<not> le_malloc env then Inr 1
                  else if \<not> le_ioctl env
                            \<lparr>pid = word_of_int p, num_nodes = lg_num_nodes g,
                             num_edges = lg_num_edges g, id_mode = word_of_int mode\<rparr>
                            (lg_edges g)
                  then Inr 1
                  else Inr 0)))"

section \<open>Searching the keys in the text written by \<open>serialize\<close>\<close>


definition plain :: "string \<Rightarrow> bool" where
  "plain s \<longleftrightarrow> dq \<notin> set s"

lemma plain_simps [simp]:
  "plain []" "plain (c # s) \<longleftrightarrow> c \<noteq> dq \<and> plain s" "plain (s @ t) \<longleftrightarrow> plain s \<and> plain t"
  by (auto simp: plain_def)

lemma digit_char_not_dq: "d < 10 \<Longrightarrow> digit_char d \<noteq> dq"
proof
  assume d: "d < 10" and e: "digit_char d = dq"
  then have "(of_char (char_of (48 + d)) :: nat) = of_char dq" by (simp add: digit_char_def)
  then have "(48 + d) mod 256 = 34" by simp
  with d show False by simp
qed

lemma plain_show_nat [simp]: "plain (show_nat n)"
proof (induction n rule: show_nat.induct)
  case (1 n)
  show ?case
  proof (cases "n < 10")
    case True
    then show ?thesis by (subst show_nat.simps) (simp add: digit_char_not_dq)
  next
    case False
    with 1 show ?thesis by (subst show_nat.simps) (simp add: digit_char_not_dq)
  qed
qed

lemma plain_show_int [simp]: "plain (show_int i)"
  by (simp add: show_int_def)

lemma strstr_skip_plain:
  "plain v \<Longrightarrow> strstr (v @ s) (dq # ks) = strstr s (dq # ks)"
  by (induction v) auto

lemma prefix_between_quotes:
  "plain u \<Longrightarrow> plain v \<Longrightarrow> prefix (u @ dq # k) (v @ dq # r) \<longleftrightarrow> u = v \<and> prefix k r"
proof (induction u arbitrary: v)
  case Nil
  then show ?case by (cases v) auto
next
  case (Cons b u)
  then show ?case by (cases v) auto
qed

lemma prefix_edges_key [simp]:
  "plain v \<Longrightarrow>
   prefix [CHR ''e'', CHR ''d'', CHR ''g'', CHR ''e'', CHR ''s'', dq, CHR '':''] (v @ dq # c # r) \<longleftrightarrow>
     v = ''edges'' \<and> c = CHR '':''"
  using prefix_between_quotes[of "''edges''" v "[CHR '':'']" "c # r"] by auto

lemma prefix_nodeLabels_key [simp]:
  "plain v \<Longrightarrow>
   prefix [CHR ''n'', CHR ''o'', CHR ''d'', CHR ''e'', CHR ''L'', CHR ''a'', CHR ''b'', CHR ''e'',
           CHR ''l'', CHR ''s'', dq, CHR '':''] (v @ dq # c # r) \<longleftrightarrow>
     v = ''nodeLabels'' \<and> c = CHR '':''"
  using prefix_between_quotes[of "''nodeLabels''" v "[CHR '':'']" "c # r"] by auto

abbreviation (input) edges_key :: string where
  "edges_key \<equiv> [dq, CHR ''e'', CHR ''d'', CHR ''g'', CHR ''e'', CHR ''s'', dq, CHR '':'']"

abbreviation (input) nodeLabels_key :: string where
  "nodeLabels_key \<equiv> [dq, CHR ''n'', CHR ''o'', CHR ''d'', CHR ''e'', CHR ''L'', CHR ''a'', CHR ''b'',
      CHR ''e'', CHR ''l'', CHR ''s'', dq, CHR '':'']"

lemma calls_no_edges_key:
  "\<forall>c\<in>set cs. plain (name c) \<and> plain (irLocation c) \<Longrightarrow>
     strstr (comma_lines ser_call cs @ s) edges_key = strstr s edges_key"
  by (induction cs) (simp_all add: ser_call_def quoted_def strstr_skip_plain)


lemma labels_no_edges_key:
  "\<forall>l\<in>set ls. plain l \<Longrightarrow>
     strstr (comma_sep quoted ls @ CHR '']'' # s) edges_key = strstr s edges_key"
  by (induction ls) (simp_all add: quoted_def strstr_skip_plain)

lemma ints_no_edges_key:
  "strstr (comma_sep show_int xs @ s) edges_key = strstr s edges_key"
  by (induction xs) (simp_all add: strstr_skip_plain)

definition plain_policy :: "FuncPolicy \<Rightarrow> bool" where
  "plain_policy f \<longleftrightarrow>
     plain (fp_functionName f) \<and> plain (idMode f) \<and>
     (\<forall>c\<in>set (callsInOrder f). plain (name c) \<and> plain (irLocation c)) \<and>
     (\<forall>l\<in>set (nodeLabels f). plain l) \<and>
     (\<forall>e\<in>set (fp_edges f). plain (je_label e))"

definition edges_rest :: "FuncPolicy \<Rightarrow> string" where
  "edges_rest f =
     '' ['' @ [nl] @ comma_lines ser_edge (fp_edges f) @
     ''      ]'' @ [nl] @ ''    }'' @ [nl] @ ''  ]'' @ [nl] @ ''}'' @ [nl]"

lemma single_function_edges_key:
  assumes "plain_policy f"
  shows "strstr (serialize [f]) edges_key = Some (edges_key @ edges_rest f)"
  using assms
  by (simp add: serialize_def ser_function_def quoted_def plain_policy_def edges_rest_def
      strstr_skip_plain calls_no_edges_key labels_no_edges_key ints_no_edges_key)

lemma edges_no_nodeLabels_key:
  "\<forall>e\<in>set es. plain (je_label e) \<Longrightarrow>
     strstr (comma_lines ser_edge es @ s) nodeLabels_key = strstr s nodeLabels_key"
  by (induction es) (simp_all add: ser_edge_def quoted_def strstr_skip_plain)

lemma rest_no_nodeLabels_key:
  assumes "plain_policy f"
  shows "strstr (edges_rest f) nodeLabels_key = None"
  using assms
  by (simp add: edges_rest_def plain_policy_def edges_no_nodeLabels_key)


lemma strchr_Some: "c \<in> set s \<Longrightarrow> \<exists>r. strchr s c = Some r"
  by (induction s) auto

lemma edges_rest_brackets:
  "\<exists>start en. strchr (edges_rest f) CHR ''['' = Some start \<and> strchr start CHR '']'' = Some en \<and>
      length en < length start"
proof -
  let ?X = "[nl] @ comma_lines ser_edge (fp_edges f) @
     ''      ]'' @ [nl] @ ''    }'' @ [nl] @ ''  ]'' @ [nl] @ ''}'' @ [nl]"
  have st: "strchr (edges_rest f) CHR ''['' = Some (CHR ''['' # ?X)"
    by (simp add: edges_rest_def)
  have "CHR '']'' \<in> set ?X" by simp
  from strchr_Some[OF this] obtain en where en: "strchr ?X CHR '']'' = Some en" ..
  from strchr_length[OF en] have "length en < length (CHR ''['' # ?X)" by simp
  moreover from en have "strchr (CHR ''['' # ?X) CHR '']'' = Some en" by simp
  ultimately show ?thesis using st by blast
qed

section \<open>The exported edges and the text of the artifact\<close>


definition has_edge :: "Graph \<Rightarrow> nat \<Rightarrow> nat \<Rightarrow> string \<Rightarrow> bool" where
  "has_edge G s d l \<longleftrightarrow>
     s < length (adj G) \<and>
     (\<exists>eid\<in>set (adj G ! s). target (g_edges G ! eid) = d \<and> label (g_edges G ! eid) = l)"






definition edges_kept :: "Graph \<Rightarrow> Graph \<Rightarrow> bool" where
  "edges_kept G G' \<longleftrightarrow> (\<forall>s0 d0 l0. has_edge G s0 d0 l0 \<longrightarrow> has_edge G' s0 d0 l0)"

lemma edges_kept_refl [simp]: "edges_kept G G"
  by (simp add: edges_kept_def)






















section \<open>Concrete policies and requests\<close>

text \<open>Three \<epsilon>-chained nodes, node 0 active.\<close>

definition chain_policy :: proc_policy where
  "chain_policy =
     \<lparr>pp_pid = 1, pp_num_nodes = 3, pp_num_edges = 2, pp_id_mode = 0,
      edges = [\<lparr>src = 0, dst = 1, match_id = - 1, is_epsilon = 1\<rparr>,
               \<lparr>src = 1, dst = 2, match_id = - 1, is_epsilon = 1\<rparr>],
      fr = \<lparr>fr_num_nodes = 3, bitmap = Some [1]\<rparr>\<rparr>"

text \<open>The linear automaton of \<open>open, read, close\<close>: edge \<open>0 \<rightarrow> 1\<close> on identifier 0 and
  edge \<open>1 \<rightarrow> 2\<close> on identifier 1, node 0 active.\<close>

definition linear_policy :: proc_policy where
  "linear_policy =
     \<lparr>pp_pid = 1, pp_num_nodes = 3, pp_num_edges = 2, pp_id_mode = 0,
      edges = [\<lparr>src = 0, dst = 1, match_id = 0, is_epsilon = 0\<rparr>,
               \<lparr>src = 1, dst = 2, match_id = 1, is_epsilon = 0\<rparr>],
      fr = \<lparr>fr_num_nodes = 3, bitmap = Some [1]\<rparr>\<rparr>"

definition linear_hdr :: policy_blob where
  "linear_hdr = \<lparr>pid = 1, num_nodes = 3, num_edges = 2, id_mode = 0\<rparr>"

definition linear_arg :: user_arg where
  "linear_arg = \<lparr>u_hdr = Some linear_hdr, u_edges = edges linear_policy\<rparr>"

definition all_ok :: alloc_outcomes where
  "all_ok = \<lparr>edges_alloc = True, pp_alloc = True, bitmap_alloc = True, indeg_alloc = True\<rparr>"

text \<open>A request for two nodes whose only edge, an \<epsilon>-edge, ends at index 5.\<close>

definition stray_arg :: user_arg where
  "stray_arg = \<lparr>u_hdr = Some \<lparr>pid = 1, num_nodes = 2, num_edges = 1, id_mode = 0\<rparr>,
                 u_edges = [\<lparr>src = 0, dst = 5, match_id = - 1, is_epsilon = 1\<rparr>]\<rparr>"

text \<open>A request for a two-node cycle of consuming edges: every node has a consuming
  in-edge.\<close>

definition cycle_arg :: user_arg where
  "cycle_arg = \<lparr>u_hdr = Some \<lparr>pid = 1, num_nodes = 2, num_edges = 2, id_mode = 0\<rparr>,
                 u_edges = [\<lparr>src = 0, dst = 1, match_id = 0, is_epsilon = 0\<rparr>,
                            \<lparr>src = 1, dst = 0, match_id = 1, is_epsilon = 0\<rparr>]\<rparr>"

text \<open>The policy that the request \<open>cycle_arg\<close> installs when the allocation of the
  frontier bitmap fails: \<open>frontier_init\<close> leaves \<open>bitmap = NULL\<close>.\<close>

definition null_policy :: proc_policy where
  "null_policy =
     \<lparr>pp_pid = 1, pp_num_nodes = 2, pp_num_edges = 2, pp_id_mode = 0,
      edges = [\<lparr>src = 0, dst = 1, match_id = 0, is_epsilon = 0\<rparr>,
               \<lparr>src = 1, dst = 0, match_id = 1, is_epsilon = 0\<rparr>],
      fr = \<lparr>fr_num_nodes = 2, bitmap = None\<rparr>\<rparr>"

lemma upt_2: "[0..<2] = [0, Suc 0]"
  by (simp add: upt_rec)

lemma upt_3: "[0..<3] = [0, Suc 0, 2]"
  by (simp add: upt_rec)

text \<open>IR functions: a direct call of an external declaration, and any other instruction.\<close>

definition lib_call :: "string \<Rightarrow> instruction" where
  "lib_call n = \<lparr>called = Some \<lparr>fn_name = n, fn_is_declaration = True\<rparr>, debug_line = None\<rparr>"

definition other_instr :: instruction where
  "other_instr = \<lparr>called = None, debug_line = None\<rparr>"

text \<open>Block A calls \<open>open\<close> and branches to block B, which calls nothing and branches to
  block C, which calls \<open>read\<close>.\<close>

definition skip_fn :: ir_function where
  "skip_fn = \<lparr>f_name = ''f'',
     blocks = [\<lparr>addr = 10, instrs = [lib_call ''open'', other_instr], successors = [20]\<rparr>,
               \<lparr>addr = 20, instrs = [other_instr], successors = [30]\<rparr>,
               \<lparr>addr = 30, instrs = [lib_call ''read'', other_instr], successors = []\<rparr>]\<rparr>"


text \<open>Policies as the pass produces them: \<open>open\<close> followed by \<open>read\<close> in one block with a
  back edge, and a function without any library call.\<close>

definition open_read_policy :: FuncPolicy where
  "open_read_policy =
     \<lparr>fp_functionName = ''f'',
      callsInOrder =
        [\<lparr>name = ''open'', site_uniqueID = - 1, site_dummyID = 0,
          resetCount = 0, irLocation = ''unknown''\<rparr>,
         \<lparr>name = ''read'', site_uniqueID = - 1, site_dummyID = 1,
          resetCount = 0, irLocation = ''unknown''\<rparr>],
      fp_mod = 200, idMode = ''dummy'', nodeLabels = [''open'', ''read''],
      nodeDummyIDs = [0, 1], nodeUniqueIDs = [1, 2],
      fp_edges = [\<lparr>je_src = 0, je_dst = 1, je_label = ''open'', matchDummy = 0, matchUnique = 1\<rparr>,
                  \<lparr>je_src = 1, je_dst = 0, je_label = epsilon_label,
                   matchDummy = - 1, matchUnique = - 1\<rparr>]\<rparr>"

definition empty_policy :: FuncPolicy where
  "empty_policy =
     \<lparr>fp_functionName = ''g'', callsInOrder = [], fp_mod = 200, idMode = ''dummy'',
      nodeLabels = [], nodeDummyIDs = [], nodeUniqueIDs = [], fp_edges = []\<rparr>"

text \<open>The artifact that \<open>serialize\<close> writes for these two functions, and a text with the
  characters \<open>ws\<close> inserted at position \<open>k\<close>.\<close>

definition two_function_artifact :: string where
  "two_function_artifact = serialize [open_read_policy, empty_policy]"

definition insert_at :: "nat \<Rightarrow> string \<Rightarrow> string \<Rightarrow> string" where
  "insert_at k ws s = take k s @ ws @ drop k s"

section \<open>Claims\<close>

text \<open>
  Claim C9.  \<open>epsilon_closure\<close> is a closure operator on frontiers: whenever the
  endpoints of the \<epsilon>-edges are bit positions of the frontier's bitmap, the loop
  terminates with a result, every state that was active is still active in the result
  (\<open>F \<subseteq> closure(F)\<close>), and running the loop again on the result returns the result
  unchanged (\<open>closure(closure(F)) = closure(F)\<close>).
\<close>

theorem epsilon_closure_is_closure_operator:
  assumes "eps_in_range (edge_array pp) (capacity (fr pp))"
  shows "\<exists>pp'. epsilon_closure pp = Some pp' \<and> active (fr pp) \<subseteq> active (fr pp') \<and>
               epsilon_closure pp' = Some pp'"
proof -
  from epsilon_closure_total[OF assms] obtain pp' where c: "epsilon_closure pp = Some pp'" ..
  from epsilon_closure_inv[OF c] epsilon_closure_fixed[OF c] c show ?thesis by blast
qed

theorem epsilon_closure_is_closure_operator_witness:
  "eps_in_range (edge_array chain_policy) (capacity (fr chain_policy)) \<and>
   (\<exists>pp'. epsilon_closure chain_policy = Some pp' \<and>
          active (fr chain_policy) \<subseteq> active (fr pp') \<and> epsilon_closure pp' = Some pp')"
proof -
  have h: "eps_in_range (edge_array chain_policy) (capacity (fr chain_policy))"
    by (simp add: eps_in_range_def edge_array_def chain_policy_def capacity_def BITS_PER_LONG_def)
  from epsilon_closure_is_closure_operator[OF h] h show ?thesis by blast
qed

text \<open>
  The step on a well-formed policy (its bitmap is the one allocated for \<open>num_nodes\<close> bits
  and every edge endpoint is below \<open>num_nodes\<close>) when the scratch bitmap can be allocated:
  the frontier \<open>F\<close> is replaced by the \<epsilon>-closure of the set of \<open>dst\<close> of the consuming edges
  with \<open>src\<close> in \<open>F\<close> and \<open>match_id = v\<close>, and \<open>frontier_empty\<close> answers true exactly when
  no such edge exists.
\<close>

lemma advance_frontier_step:
  assumes "policy_ok pp"
  shows "\<exists>pp'. advance_frontier True pp v = Some pp' \<and>
           active (fr pp') = (eps_rel (edge_array pp))\<^sup>* `` move_set (edge_array pp) (active (fr pp)) v \<and>
           frontier_empty (fr pp') = Some (move_set (edge_array pp) (active (fr pp)) v = {})"
proof -
  let ?N = "BITS_TO_LONGS (unat (fr_num_nodes (fr pp)))"
  let ?M = "move_set (edge_array pp) (active (fr pp)) v"
  from assms obtain bm where bm: "bitmap (fr pp) = Some bm" and len: "length bm = ?N"
    by (auto simp: policy_ok_def frontier_ok_def split: option.splits)
  have cap: "capacity (fr pp) = BITS_PER_LONG * ?N" by (simp add: capacity_def bm len)
  have "\<forall>e\<in>set (edge_array pp). unat (src e) < capacity (fr pp) \<and>
          unat (dst e) < BITS_PER_LONG * length (replicate ?N (0::ulong))"
    using policy_ok_bounds[OF assms] cap by simp
  from move_loop_total[OF this] obtain nxt
    where ml: "move_loop (edge_array pp) (fr pp) v (replicate ?N 0) = Some nxt" by blast
  from move_loop_length[OF ml] have ln: "length nxt = ?N" by simp
  from move_loop_bits[OF ml] have bn: "bits_of nxt = ?M" by simp
  let ?f = "(fr pp)\<lparr>bitmap := Some nxt\<rparr>"
  have mc: "memcpy_bitmap (fr pp) nxt = Some ?f"
    by (simp add: memcpy_bitmap_def bm len ln)
  have ea: "edge_array (pp\<lparr>fr := ?f\<rparr>) = edge_array pp" by (simp add: edge_array_def)
  have capf: "capacity ?f = capacity (fr pp)" by (simp add: capacity_def bm len ln)
  have "eps_in_range (edge_array (pp\<lparr>fr := ?f\<rparr>)) (capacity (fr (pp\<lparr>fr := ?f\<rparr>)))"
    using policy_ok_bounds[OF assms] by (simp add: eps_in_range_def ea capf)
  from epsilon_closure_total[OF this] obtain pp'
    where ec: "epsilon_closure (pp\<lparr>fr := ?f\<rparr>) = Some pp'" ..
  have adv: "advance_frontier True pp v = Some pp'"
    by (simp add: advance_frontier_def kcalloc_def ml mc ec)
  have act: "active (fr pp') = (eps_rel (edge_array pp))\<^sup>* `` ?M"
    using epsilon_closure_reach[OF ec] bn by (simp add: ea active_def)
  have "frontier_ok ?f" by (simp add: frontier_ok_def ln)
  with epsilon_closure_ok[OF ec] have "frontier_ok (fr pp')" by simp
  from frontier_empty_ok[OF this] act
  have "frontier_empty (fr pp') = Some (?M = {})" by auto
  with adv act show ?thesis by blast
qed

text \<open>
  Claim C1.  One Observe step on an installed policy is not always the specified one.
  \<^item> The request \<open>linear_arg\<close> installs the linear policy with node 0 active.  No consuming
    edge matches the identifier 99, so the step should leave the empty frontier, as it
    does when the scratch bitmap can be allocated; when that allocation fails,
    \<open>advance_frontier\<close> returns at once, the policy is unchanged and its frontier is not
    empty.
  \<^item> \<open>sandbox_ioctl\<close> ignores the result of \<open>frontier_init\<close>: when the allocation of the
    frontier bitmap fails, the request \<open>cycle_arg\<close> is still answered with success and
    installs a policy whose bitmap is \<open>NULL\<close>; the step on that policy reads through the
    \<open>NULL\<close> pointer (no result).
\<close>

theorem advance_frontier_not_the_specified_step:
  "sandbox_ioctl all_ok IOCTL_LOAD_POLICY linear_arg Map.empty =
     Some (Inr (), [1 \<mapsto> linear_policy]) \<and>
   move_set (edge_array linear_policy) (active (fr linear_policy)) 99 = {} \<and>
   advance_frontier False linear_policy 99 = Some linear_policy \<and>
   frontier_empty (fr linear_policy) = Some False \<and>
   advance_frontier True linear_policy 99 =
     Some (linear_policy\<lparr>fr := \<lparr>fr_num_nodes = 3, bitmap = Some [0]\<rparr>\<rparr>) \<and>
   sandbox_ioctl (all_ok\<lparr>bitmap_alloc := False\<rparr>) IOCTL_LOAD_POLICY cycle_arg Map.empty =
     Some (Inr (), [1 \<mapsto> null_policy]) \<and>
   advance_frontier True null_policy 0 = None"
proof -
  have "sandbox_ioctl all_ok IOCTL_LOAD_POLICY linear_arg Map.empty =
          Some (Inr (), [1 \<mapsto> linear_policy])"
    by (simp add: sandbox_ioctl_def all_ok_def linear_arg_def linear_hdr_def linear_policy_def
        lookup_ppid_def frontier_init_def kcalloc_def init_start_set_def BITS_TO_LONGS_def
        BITS_PER_LONG_def upt_3 frontier_set_def set_bit_nonatomic_def epsilon_closure.simps
        edge_array_def frontier_test_def test_bit_def)
  moreover have "move_set (edge_array linear_policy) (active (fr linear_policy)) 99 = {} \<and>
      advance_frontier False linear_policy 99 = Some linear_policy \<and>
      frontier_empty (fr linear_policy) = Some False \<and>
      advance_frontier True linear_policy 99 =
        Some (linear_policy\<lparr>fr := \<lparr>fr_num_nodes = 3, bitmap = Some [0]\<rparr>\<rparr>)"
    by (simp add: edge_array_def linear_policy_def BITS_TO_LONGS_def BITS_PER_LONG_def
        move_set_def advance_frontier_def kcalloc_def frontier_empty_def memcpy_bitmap_def
        epsilon_closure.simps)
  moreover have "sandbox_ioctl (all_ok\<lparr>bitmap_alloc := False\<rparr>) IOCTL_LOAD_POLICY cycle_arg
        Map.empty = Some (Inr (), [1 \<mapsto> null_policy])"
    by (simp add: sandbox_ioctl_def all_ok_def cycle_arg_def null_policy_def lookup_ppid_def
        frontier_init_def kcalloc_def init_start_set_def BITS_TO_LONGS_def BITS_PER_LONG_def
        upt_2 frontier_set_def set_bit_nonatomic_def epsilon_closure.simps edge_array_def
        frontier_test_def test_bit_def)
  moreover have "advance_frontier True null_policy 0 = None"
    by (simp add: advance_frontier_def null_policy_def kcalloc_def BITS_TO_LONGS_def
        BITS_PER_LONG_def edge_array_def frontier_test_def)
  ultimately show ?thesis by simp
qed

text \<open>
  Claim C4, as amended.  For every successful install (readable request, \<open>num_nodes > 0\<close>,
  \<open>num_edges \<le> 2\<^sup>2\<^sup>0\<close>, edge endpoints below \<open>num_nodes\<close>, and the edge array, the policy
  and the bitmap allocated) the initial frontier is the \<epsilon>-closure of exactly the nodes
  without a consuming (non-\<epsilon>) in-edge when the in-degree array can be allocated, with no
  fallback when there is no such node; it is the \<epsilon>-closure of node 0 only when the
  in-degree array cannot be allocated.
\<close>

theorem install_initial_frontier:
  assumes hdr: "u_hdr arg = Some hdr" and nz: "num_nodes hdr \<noteq> 0"
    and cap: "num_edges hdr \<le> 2 ^ 20"
    and rd: "unat (num_edges hdr) \<le> length (u_edges arg)"
    and rng: "edges_in_range (take (unat (num_edges hdr)) (u_edges arg)) (num_nodes hdr)"
    and al: "edges_alloc env" "pp_alloc env" "bitmap_alloc env"
  shows "\<exists>pp. sandbox_ioctl env IOCTL_LOAD_POLICY arg tbl = Some (Inr (), tbl(pid hdr \<mapsto> pp)) \<and>
           active (fr pp) =
             (eps_rel (take (unat (num_edges hdr)) (u_edges arg)))\<^sup>* ``
               (if indeg_alloc env then start_nodes (take (unat (num_edges hdr)) (u_edges arg))
                                         (unat (num_nodes hdr))
                else {0})"
proof -
  let ?es = "take (unat (num_edges hdr)) (u_edges arg)"
  let ?f0 = "frontier_init True (num_nodes hdr)"
  let ?S = "if indeg_alloc env then start_nodes ?es (unat (num_nodes hdr)) else {0}"
  have les: "length ?es = unat (num_edges hdr)" using rd by simp
  have "unat (num_edges hdr) < 2 ^ 32" using unsigned_less[of "num_edges hdr"] by simp
  with les have len: "length ?es < 2 ^ 32" by simp
  have ok0: "frontier_ok ?f0" and n0: "fr_num_nodes ?f0 = num_nodes hdr" and e0: "active ?f0 = {}"
    by (simp_all add: frontier_init_def kcalloc_def frontier_ok_def active_def)
  from init_start_set_spec[OF ok0 n0 nz rng len e0, of "indeg_alloc env"] obtain f
    where iss: "init_start_set (indeg_alloc env) hdr ?es ?f0 = Some f" and okf: "frontier_ok f"
      and cf: "capacity f = capacity ?f0" and af: "active f = ?S" by blast
  let ?pp = "\<lparr>pp_pid = pid hdr, pp_num_nodes = num_nodes hdr, pp_num_edges = num_edges hdr,
               pp_id_mode = id_mode hdr, edges = ?es, fr = f\<rparr>"
  have ea: "edge_array ?pp = ?es" by (simp add: edge_array_def)
  have c0: "unat (num_nodes hdr) \<le> capacity ?f0"
    using le_capacity_longs[of "unat (num_nodes hdr)"]
    by (simp add: capacity_def frontier_init_def kcalloc_def)
  have "eps_in_range (edge_array ?pp) (capacity (fr ?pp))"
    unfolding ea eps_in_range_def using rng c0 cf
    by (auto simp: edges_in_range_def word_less_nat_alt)
  from epsilon_closure_total[OF this] obtain pp' where ec: "epsilon_closure ?pp = Some pp'" ..
  from epsilon_closure_inv[OF ec] obtain g where "pp' = ?pp\<lparr>fr := g\<rparr>" by blast
  then have pid': "pp_pid pp' = pid hdr" by simp
  from epsilon_closure_reach[OF ec] af ea
  have act: "active (fr pp') = (eps_rel ?es)\<^sup>* `` ?S" by simp
  have nocap: "\<not> num_edges hdr > push_bit 20 1" using cap by simp
  have "sandbox_ioctl env IOCTL_LOAD_POLICY arg tbl = Some (Inr (), tbl(pid hdr \<mapsto> pp'))"
    using hdr nz nocap rd al iss ec pid'
    by (simp add: sandbox_ioctl_def Let_def lookup_ppid_def split: option.splits)
  with act show ?thesis by blast
qed

theorem install_initial_frontier_witness:
  "\<exists>pp. sandbox_ioctl all_ok IOCTL_LOAD_POLICY linear_arg Map.empty = Some (Inr (), [1 \<mapsto> pp]) \<and>
      active (fr pp) =
        (eps_rel (edges linear_policy))\<^sup>* `` start_nodes (edges linear_policy) 3"
  using install_initial_frontier[of linear_arg linear_hdr all_ok Map.empty]
  by (simp add: linear_arg_def linear_hdr_def linear_policy_def all_ok_def edges_in_range_def)

text \<open>
  Claim C4 as stated fails where it promises node 0 as a fallback: in the two-node cycle
  no node is without a consuming in-edge, the install succeeds, and the installed frontier
  has no bit set, bit 0 included.
\<close>

theorem install_no_fallback_counterexample:
  "start_nodes (u_edges cycle_arg) 2 = {} \<and>
   sandbox_ioctl all_ok IOCTL_LOAD_POLICY cycle_arg Map.empty =
     Some (Inr (), [1 \<mapsto> \<lparr>pp_pid = 1, pp_num_nodes = 2, pp_num_edges = 2, pp_id_mode = 0,
                           edges = u_edges cycle_arg,
                           fr = \<lparr>fr_num_nodes = 2, bitmap = Some [0]\<rparr>\<rparr>]) \<and>
   frontier_test \<lparr>fr_num_nodes = 2, bitmap = Some [0]\<rparr> 0 = Some False"
  by (simp add: start_nodes_def indeg_of_def upt_2
      sandbox_ioctl_def all_ok_def cycle_arg_def lookup_ppid_def frontier_init_def kcalloc_def
      init_start_set_def BITS_TO_LONGS_def BITS_PER_LONG_def frontier_set_def
      set_bit_nonatomic_def epsilon_closure.simps edge_array_def frontier_test_def test_bit_def)

text \<open>
  Claim C6.  The step is not allocation-free: \<open>advance_frontier\<close> allocates its scratch
  bitmap on every observation and returns without advancing when that fails.  On the
  linear policy the identifier 99 is a violation: with the allocation it empties the
  frontier and the process is killed, without it the table is left as it was and no
  signal is sent.
\<close>

theorem observation_dropped_on_alloc_failure:
  "handler_pre False 99 1 [1 \<mapsto> linear_policy] = Some ([1 \<mapsto> linear_policy], False) \<and>
   handler_pre True 99 1 [1 \<mapsto> linear_policy] =
     Some ([1 \<mapsto> linear_policy\<lparr>fr := \<lparr>fr_num_nodes = 3, bitmap = Some [0]\<rparr>\<rparr>], True)"
  by (simp add: handler_pre_def lookup_ppid_def advance_frontier_def kcalloc_def
      frontier_empty_def linear_policy_def BITS_TO_LONGS_def BITS_PER_LONG_def
      edge_array_def memcpy_bitmap_def epsilon_closure.simps)

text \<open>
  Claim C2.  The ioctl checks \<open>num_nodes\<close> and \<open>num_edges\<close> but never the edge endpoints:
  a request for two nodes with an \<epsilon>-edge \<open>0 \<rightarrow> 5\<close> is accepted, the policy is installed
  with that edge, and the \<epsilon>-closure sets bit 5 of the frontier (bitmap word
  \<open>35 = 2\<^sup>0 + 2\<^sup>1 + 2\<^sup>5\<close>).
\<close>

theorem install_accepts_out_of_range_edge:
  "sandbox_ioctl all_ok IOCTL_LOAD_POLICY stray_arg Map.empty =
     Some (Inr (), [1 \<mapsto> \<lparr>pp_pid = 1, pp_num_nodes = 2, pp_num_edges = 1, pp_id_mode = 0,
                           edges = [\<lparr>src = 0, dst = 5, match_id = - 1, is_epsilon = 1\<rparr>],
                           fr = \<lparr>fr_num_nodes = 2, bitmap = Some [35]\<rparr>\<rparr>])"
  by (simp add: sandbox_ioctl_def all_ok_def stray_arg_def lookup_ppid_def frontier_init_def
      kcalloc_def init_start_set_def BITS_TO_LONGS_def BITS_PER_LONG_def upt_2 frontier_set_def
      set_bit_nonatomic_def epsilon_closure.simps edge_array_def frontier_test_def test_bit_def)

text \<open>
  Claim C3.  The entry of the pid is unlinked and freed before the new \<open>proc_policy\<close> is
  allocated.  When that allocation fails the ioctl returns \<open>-ENOMEM\<close> and the pid is left
  without any policy; when the earlier allocation of the edge array fails, the old
  policy is still in place.
\<close>

theorem install_failure_drops_old_policy:
  "sandbox_ioctl (all_ok\<lparr>pp_alloc := False\<rparr>) IOCTL_LOAD_POLICY cycle_arg [1 \<mapsto> linear_policy] =
     Some (Inl ENOMEM, Map.empty) \<and>
   sandbox_ioctl (all_ok\<lparr>edges_alloc := False\<rparr>) IOCTL_LOAD_POLICY cycle_arg [1 \<mapsto> linear_policy] =
     Some (Inl ENOMEM, [1 \<mapsto> linear_policy])"
  by (simp add: sandbox_ioctl_def all_ok_def cycle_arg_def lookup_ppid_def)

text \<open>
  Claim C5.  The extractor adds an \<epsilon>-edge only to a direct successor that has calls of
  its own; a successor without calls is not walked through.  For the function whose block
  A (\<open>open\<close>) reaches block C (\<open>read\<close>) through the call-free block B, the policy has the
  two nodes and no edge at all, so the node of \<open>read\<close> is not reachable from the node of
  \<open>open\<close>.
\<close>

theorem call_free_block_loses_reachability:
  "run_function 200 ''dummy'' skip_fn = Some
     \<lparr>fp_functionName = ''f'',
      callsInOrder =
        [\<lparr>name = ''open'', site_uniqueID = - 1, site_dummyID = 0,
          resetCount = 0, irLocation = ''unknown''\<rparr>,
         \<lparr>name = ''read'', site_uniqueID = - 1, site_dummyID = 1,
          resetCount = 0, irLocation = ''unknown''\<rparr>],
      fp_mod = 200, idMode = ''dummy'', nodeLabels = [''open'', ''read''],
      nodeDummyIDs = [0, 1], nodeUniqueIDs = [1, 2], fp_edges = []\<rparr>"
  by (simp add: run_function_def extract_graph_def build_bbMap_def skip_fn_def calls_of_block_def
      upt_2 map_calls_def addNodeRetIndex_def callee_name_def lib_call_def bb_store_def
      program_calls_def bb_find_def cni_at_def ir_location_def Let_def
      isCandidateLibCall_def other_instr_def)



text \<open>
  Claim C10.  For every artifact that \<open>serialize\<close> writes for exactly one function whose
  strings contain no double quote, the loader with function index 0 fails:
  \<open>extract_graph_edges\<close> returns \<open>-1\<close> (the key \<open>"nodeLabels":\<close> is searched for behind the
  key \<open>"edges":\<close> of the selected function, where it does not occur) and \<open>main\<close> exits with
  code 1, for each id mode and whatever \<open>calloc\<close> and the device would answer.
\<close>

theorem single_function_artifact_rejected:
  assumes "plain_policy f" and "0 < p"
  shows "extract_graph_edges calloc_ok (serialize [f]) 0 mode = Inl Failed \<and>
         loader_main env p (Some (serialize [f])) 0 mode = Inr 1"
proof -
  have sk: "skip_to_edges (nat (0 + 1)) (serialize [f]) = Some (edges_rest f)"
    using single_function_edges_key[OF assms(1)] by (simp add: quoted_def)
  from edges_rest_brackets[of f] obtain start en
    where br: "strchr (edges_rest f) CHR ''['' = Some start" "strchr start CHR '']'' = Some en"
      "length en < length start" by blast
  have nk: "strstr (edges_rest f) (quoted ''nodeLabels'' @ '':'') = None"
    using rest_no_nodeLabels_key[OF assms(1)] by (simp add: quoted_def)
  have ex: "\<And>c. extract_graph_edges c (serialize [f]) 0 mode = Inl Failed"
    unfolding extract_graph_edges_def sk using br nk by simp
  with assms(2) show ?thesis by (simp add: loader_main_def)
qed

theorem single_function_artifact_rejected_witness:
  "plain_policy open_read_policy \<and> (0 :: int) < 1234 \<and>
   extract_graph_edges True (serialize [open_read_policy]) 0 0 = Inl Failed \<and>
   loader_main \<lparr>le_calloc = True, le_open = True, le_malloc = True, le_ioctl = (\<lambda>h es. True)\<rparr>
     1234 (Some (serialize [open_read_policy])) 0 0 = Inr 1"
proof -
  have h: "plain_policy open_read_policy"
    by (simp add: plain_policy_def open_read_policy_def epsilon_label_def)
  from single_function_artifact_rejected[OF h, of 1234 True 0] h show ?thesis by simp
qed

text \<open>
  Claim C8.  The blob that the loader builds depends on white space in the artifact.
  In the artifact written for the functions \<open>f\<close> (two call sites) and \<open>g\<close> (none) the key
  \<open>"edges"\<close> of \<open>f\<close> starts at position 407 and the empty array of the key \<open>"nodeLabels"\<close> of
  \<open>g\<close> at position 707.  For function index 0 the loader reads the two edges of \<open>f\<close> and
  takes the node count from the next \<open>"nodeLabels":\<close> behind them, which is 0.
  \<^item> With two blanks between the brackets of that empty array the node count is 1
    (\<open>nle - nlb > 2\<close> is taken as ``not empty'').
  \<^item> With one blank between the key \<open>"edges"\<close> of \<open>f\<close> and its colon the search for
    \<open>"edges":\<close> only finds the key of \<open>g\<close>, no \<open>"nodeLabels":\<close> follows it, and the loader
    fails: \<open>main\<close> exits with code 1 where it installs the policy from the original text.
\<close>

theorem loader_depends_on_whitespace:
  "take 10 (drop 407 two_function_artifact) = quoted ''edges'' @ '': ['' \<and>
   take 17 (drop 693 two_function_artifact) = quoted ''nodeLabels'' @ '': [],'' \<and>
   extract_graph_edges True two_function_artifact 0 0 =
     Inr \<lparr>lg_edges = [\<lparr>src = 0, dst = 1, match_id = 0, is_epsilon = 0\<rparr>,
                      \<lparr>src = 1, dst = 0, match_id = - 1, is_epsilon = 1\<rparr>],
          lg_num_edges = 2, lg_num_nodes = 0\<rparr> \<and>
   extract_graph_edges True (insert_at 708 ''  '' two_function_artifact) 0 0 =
     Inr \<lparr>lg_edges = [\<lparr>src = 0, dst = 1, match_id = 0, is_epsilon = 0\<rparr>,
                      \<lparr>src = 1, dst = 0, match_id = - 1, is_epsilon = 1\<rparr>],
          lg_num_edges = 2, lg_num_nodes = 1\<rparr> \<and>
   extract_graph_edges True (insert_at 414 '' '' two_function_artifact) 0 0 = Inl Failed \<and>
   loader_main \<lparr>le_calloc = True, le_open = True, le_malloc = True, le_ioctl = (\<lambda>h es. True)\<rparr>
     1234 (Some two_function_artifact) 0 0 = Inr 0 \<and>
   loader_main \<lparr>le_calloc = True, le_open = True, le_malloc = True, le_ioctl = (\<lambda>h es. True)\<rparr>
     1234 (Some (insert_at 414 '' '' two_function_artifact)) 0 0 = Inr 1"
proof -
  have ctx: "take 10 (drop 407 two_function_artifact) = quoted ''edges'' @ '': ['' \<and>
      take 17 (drop 693 two_function_artifact) = quoted ''nodeLabels'' @ '': [],''"
    by code_simp
  have e1: "extract_graph_edges True two_function_artifact 0 0 =
      Inr \<lparr>lg_edges = [\<lparr>src = 0, dst = 1, match_id = 0, is_epsilon = 0\<rparr>,
                       \<lparr>src = 1, dst = 0, match_id = - 1, is_epsilon = 1\<rparr>],
           lg_num_edges = 2, lg_num_nodes = 0\<rparr>"
    by code_simp
  have e2: "extract_graph_edges True (insert_at 708 ''  '' two_function_artifact) 0 0 =
      Inr \<lparr>lg_edges = [\<lparr>src = 0, dst = 1, match_id = 0, is_epsilon = 0\<rparr>,
                       \<lparr>src = 1, dst = 0, match_id = - 1, is_epsilon = 1\<rparr>],
           lg_num_edges = 2, lg_num_nodes = 1\<rparr>"
    by code_simp
  have e3: "extract_graph_edges True (insert_at 414 '' '' two_function_artifact) 0 0 = Inl Failed"
    by code_simp
  have m1: "loader_main \<lparr>le_calloc = True, le_open = True, le_malloc = True,
        le_ioctl = (\<lambda>h es. True)\<rparr> 1234 (Some two_function_artifact) 0 0 = Inr 0"
    by (simp add: loader_main_def e1)
  have m3: "loader_main \<lparr>le_calloc = True, le_open = True, le_malloc = True,
        le_ioctl = (\<lambda>h es. True)\<rparr> 1234 (Some (insert_at 414 '' '' two_function_artifact)) 0 0 =
        Inr 1"
    by (simp add: loader_main_def e3)
  from ctx e1 e2 e3 m1 m3 show ?thesis by (intro conjI) (erule conjunct1 conjunct2 | assumption)+
qed

end
